theory Spec2Isabelle
  imports Main "HOL-Library.Word"
begin

unbundle bit_operations_syntax

section \<open>The CUDA compute path of the render-test tool\<close>

text \<open>
  A shallow embedding of \<^verbatim>\<open>tools/render-test/cuda/cuda-compute-util.cpp\<close>.

  C \<^verbatim>\<open>int\<close> values that take part in arithmetic are 32-bit words (read with \<open>sint\<close>),
  \<^verbatim>\<open>uint64_t\<close> values are 64-bit words. Device ordinals and counts, which are only
  compared and incremented below a bound, are HOL integers. Result codes of the CUDA
  driver and runtime are integers; 0 is success.

  \<^verbatim>\<open>SLANG_ASSERT\<close> is declared outside this file. It is taken as a parameter of the
  build: with \<open>debug\<close> a failed assertion stops the run with \<open>AssertFailed\<close>, without
  \<open>debug\<close> the macro expands to nothing.
\<close>

type_synonym int32 = "32 word"
type_synonym uint64 = "64 word"

datatype error =
    SLANG_FAIL
  | SLANG_E int
  | AssertFailed
  | NullDereference
  | IndexOutOfRange

definition isError :: "int \<Rightarrow> bool" where
  "isError result = (result \<noteq> 0)"

definition SLANG_ASSERT :: "bool \<Rightarrow> bool \<Rightarrow> error + unit" where
  "SLANG_ASSERT debug cond = (if debug \<and> \<not> cond then Inl AssertFailed else Inr ())"

definition SLANG_CUDA_RETURN_ON_FAIL :: "bool \<Rightarrow> int \<Rightarrow> error + unit" where
  "SLANG_CUDA_RETURN_ON_FAIL debug res =
     (if isError res
      then (case SLANG_ASSERT debug False of Inl e \<Rightarrow> Inl e | Inr _ \<Rightarrow> Inl SLANG_FAIL)
      else Inr ())"

definition andThen :: "error + 'a \<Rightarrow> ('a \<Rightarrow> error + 'b) \<Rightarrow> error + 'b" where
  "andThen r f = (case r of Inl e \<Rightarrow> Inl e | Inr x \<Rightarrow> f x)"

subsection \<open>Cores per multiprocessor\<close>

definition infos :: "(int32 \<times> int32) list" where
  "infos =
    [(0x30, 192), (0x32, 192), (0x35, 192), (0x37, 192),
     (0x50, 128), (0x52, 128), (0x53, 128),
     (0x60, 64), (0x61, 128), (0x62, 128),
     (0x70, 64), (0x72, 64), (0x75, 64)]"

fun findSM :: "(int32 \<times> int32) list \<Rightarrow> int32 \<Rightarrow> int32 option" where
  "findSM [] sm = None"
| "findSM ((k, coreCount) # rest) sm = (if k = sm then Some coreCount else findSM rest sm)"

definition calcSMCountPerMultiProcessor :: "bool \<Rightarrow> int32 \<Rightarrow> int32 \<Rightarrow> error + int32" where
  "calcSMCountPerMultiProcessor debug major minor =
     (let sm = push_bit 4 major + minor in
      case findSM infos sm of
        Some coreCount \<Rightarrow> Inr coreCount
      | None \<Rightarrow>
          (let lastInfo = last infos in
           andThen (SLANG_ASSERT debug (snd lastInfo <s sm)) (\<lambda>_. Inr (snd lastInfo))))"

subsection \<open>Device selection\<close>

datatype cudaDeviceAttr =
    cudaDevAttrComputeMode
  | cudaDevAttrComputeCapabilityMajor
  | cudaDevAttrComputeCapabilityMinor
  | cudaDevAttrMultiProcessorCount
  | cudaDevAttrClockRate

text \<open>
  The device enumeration of the CUDA runtime: each query yields a result code and the
  value it stores through its out-pointer.
\<close>

record cudaRuntime =
  cudaGetDeviceCount :: "int \<times> int"
  cudaDeviceGetAttribute :: "cudaDeviceAttr \<Rightarrow> int \<Rightarrow> int \<times> int32"

definition cudaComputeModeProhibited :: int32 where
  "cudaComputeModeProhibited = 2"

record findState =
  smPerMultiproc :: int32
  maxPerfDevice :: int
  devicesProhibited :: int
  maxComputePerf :: uint64

definition findInit :: findState where
  "findInit = \<lparr>smPerMultiproc = 0, maxPerfDevice = - 1, devicesProhibited = 0, maxComputePerf = 0\<rparr>"

definition compute_perf :: "int32 \<Rightarrow> int32 \<Rightarrow> int32 \<Rightarrow> uint64" where
  "compute_perf multiProcessorCount smCount clockRate =
     scast multiProcessorCount * scast smCount * scast clockRate"

definition getAttribute :: "bool \<Rightarrow> cudaRuntime \<Rightarrow> cudaDeviceAttr \<Rightarrow> int \<Rightarrow> error + int32" where
  "getAttribute debug rt attr device =
     (case cudaDeviceGetAttribute rt attr device of (res, v) \<Rightarrow>
      andThen (SLANG_CUDA_RETURN_ON_FAIL debug res) (\<lambda>_. Inr v))"

definition findStep :: "bool \<Rightarrow> cudaRuntime \<Rightarrow> int \<Rightarrow> findState \<Rightarrow> error + findState" where
  "findStep debug rt currentDevice s =
     andThen (getAttribute debug rt cudaDevAttrComputeMode currentDevice) (\<lambda>computeMode.
     andThen (getAttribute debug rt cudaDevAttrComputeCapabilityMajor currentDevice) (\<lambda>major.
     andThen (getAttribute debug rt cudaDevAttrComputeCapabilityMinor currentDevice) (\<lambda>minor.
     if computeMode \<noteq> cudaComputeModeProhibited
     then
       andThen (if major = 9999 \<and> minor = 9999 then Inr 1
                else calcSMCountPerMultiProcessor debug major minor) (\<lambda>sm.
       andThen (getAttribute debug rt cudaDevAttrMultiProcessorCount currentDevice) (\<lambda>multiProcessorCount.
       andThen (getAttribute debug rt cudaDevAttrClockRate currentDevice) (\<lambda>clockRate.
       let perf = compute_perf multiProcessorCount sm clockRate in
       if perf > maxComputePerf s
       then Inr (s\<lparr>smPerMultiproc := sm, maxComputePerf := perf, maxPerfDevice := currentDevice\<rparr>)
       else Inr (s\<lparr>smPerMultiproc := sm\<rparr>))))
     else Inr (s\<lparr>devicesProhibited := devicesProhibited s + 1\<rparr>))))"

fun findLoop :: "bool \<Rightarrow> cudaRuntime \<Rightarrow> int list \<Rightarrow> findState \<Rightarrow> error + findState" where
  "findLoop debug rt [] s = Inr s"
| "findLoop debug rt (currentDevice # rest) s =
     andThen (findStep debug rt currentDevice s) (findLoop debug rt rest)"

definition findMaxFlopsDeviceId :: "bool \<Rightarrow> cudaRuntime \<Rightarrow> error + int" where
  "findMaxFlopsDeviceId debug rt =
     (case cudaGetDeviceCount rt of (r, deviceCount) \<Rightarrow>
      andThen (SLANG_CUDA_RETURN_ON_FAIL debug r) (\<lambda>_.
      andThen (findLoop debug rt (map int [0..<nat deviceCount]) findInit) (\<lambda>s.
      if maxPerfDevice s < 0 then Inl SLANG_FAIL else Inr (maxPerfDevice s))))"

text \<open>Definitions used to state what device selection returns.\<close>

definition eligible :: "cudaRuntime \<Rightarrow> int \<Rightarrow> bool" where
  "eligible rt d =
     (snd (cudaDeviceGetAttribute rt cudaDevAttrComputeMode d) \<noteq> cudaComputeModeProhibited)"

definition coresPerSM :: "int32 \<Rightarrow> int32 \<Rightarrow> int32" where
  "coresPerSM major minor =
     (if major = 9999 \<and> minor = 9999 then 1
      else case findSM infos (push_bit 4 major + minor) of
             Some coreCount \<Rightarrow> coreCount
           | None \<Rightarrow> snd (last infos))"

definition deviceScore :: "cudaRuntime \<Rightarrow> int \<Rightarrow> uint64" where
  "deviceScore rt d =
     compute_perf (snd (cudaDeviceGetAttribute rt cudaDevAttrMultiProcessorCount d))
       (coresPerSM (snd (cudaDeviceGetAttribute rt cudaDevAttrComputeCapabilityMajor d))
                   (snd (cudaDeviceGetAttribute rt cudaDevAttrComputeCapabilityMinor d)))
       (snd (cudaDeviceGetAttribute rt cudaDevAttrClockRate d))"

text \<open>
  \<open>deviceOk\<close>: every query the loop makes for device \<open>d\<close> reports success, and in a
  debug build the assertion of the core-count function holds.
\<close>

definition deviceOk :: "bool \<Rightarrow> cudaRuntime \<Rightarrow> int \<Rightarrow> bool" where
  "deviceOk debug rt d =
     (let major = snd (cudaDeviceGetAttribute rt cudaDevAttrComputeCapabilityMajor d);
          minor = snd (cudaDeviceGetAttribute rt cudaDevAttrComputeCapabilityMinor d);
          sm = push_bit 4 major + minor
      in fst (cudaDeviceGetAttribute rt cudaDevAttrComputeMode d) = 0
       \<and> fst (cudaDeviceGetAttribute rt cudaDevAttrComputeCapabilityMajor d) = 0
       \<and> fst (cudaDeviceGetAttribute rt cudaDevAttrComputeCapabilityMinor d) = 0
       \<and> (eligible rt d \<longrightarrow>
            fst (cudaDeviceGetAttribute rt cudaDevAttrMultiProcessorCount d) = 0
          \<and> fst (cudaDeviceGetAttribute rt cudaDevAttrClockRate d) = 0
          \<and> (debug \<longrightarrow> (major = 9999 \<and> minor = 9999) \<or> findSM infos sm \<noteq> None \<or> 64 <s sm)))"

definition findInv :: "cudaRuntime \<Rightarrow> int set \<Rightarrow> findState \<Rightarrow> bool" where
  "findInv rt seen s =
     (if maxPerfDevice s < 0
      then maxComputePerf s = 0 \<and> (\<forall>d\<in>seen. eligible rt d \<longrightarrow> deviceScore rt d = 0)
      else maxPerfDevice s \<in> seen \<and> eligible rt (maxPerfDevice s)
         \<and> deviceScore rt (maxPerfDevice s) = maxComputePerf s
         \<and> 0 < maxComputePerf s
         \<and> (\<forall>d\<in>seen. eligible rt d \<longrightarrow>
                deviceScore rt d \<le> maxComputePerf s
              \<and> (d < maxPerfDevice s \<longrightarrow> deviceScore rt d < maxComputePerf s)))"

section \<open>The driver, the trace and the state\<close>

text \<open>
  Calls that leave this file are recorded in a trace, each with the reply it got: a
  result code and the value stored through the out-pointer (a handle or an address;
  0 is the null pointer). The replies are a parameter: a function of the calls made so
  far and of the call at hand.
\<close>

type_synonym uint32 = "32 word"

datatype cudaMemcpyKind = cudaMemcpyHostToDevice | cudaMemcpyDeviceToHost

datatype CUfunction_attribute =
    CU_FUNC_ATTRIBUTE_MAX_THREADS_PER_BLOCK
  | CU_FUNC_ATTRIBUTE_SHARED_SIZE_BYTES

datatype cudaCall =
    cuInit nat
  | cudaSetDevice int
  | cuCtxCreate nat int
  | cuCtxDestroy nat
  | cuModuleLoadData nat
  | cuModuleGetFunction nat string
  | cuModuleUnload nat
  | addBindSetValues
  | cudaMalloc nat
  | cudaMemcpy nat nat nat cudaMemcpyKind
  | cuFuncGetAttribute CUfunction_attribute nat
  | cuLaunchKernel nat "uint32 \<times> uint32 \<times> uint32" "uint32 \<times> uint32 \<times> uint32" nat nat "nat list"
  | cudaStreamSynchronize nat
  | cudaDeviceSynchronize
  | cudaStreamDestroy nat
  | cudaFree nat
  | releaseValueTargets

type_synonym reply = "int \<times> nat"
type_synonym event = "cudaCall \<times> reply"
type_synonym driver = "event list \<Rightarrow> cudaCall \<Rightarrow> reply"

datatype target = CUDAResource nat | OtherTarget

record state =
  trace :: "event list"
  cuInitRes :: "int option"
  m_context :: nat
  m_target :: "nat \<Rightarrow> target option"
  uniforms :: "nat \<Rightarrow> nat option"

type_synonym 'a exec = "state \<Rightarrow> (error + 'a) \<times> state"

definition ret :: "'a \<Rightarrow> 'a exec" where
  "ret x st = (Inr x, st)"

definition throw :: "error \<Rightarrow> 'a exec" where
  "throw e st = (Inl e, st)"

definition lift :: "error + 'a \<Rightarrow> 'a exec" where
  "lift r st = (r, st)"

definition seq :: "'a exec \<Rightarrow> ('a \<Rightarrow> 'b exec) \<Rightarrow> 'b exec" where
  "seq m f st = (case m st of (Inl e, st') \<Rightarrow> (Inl e, st') | (Inr x, st') \<Rightarrow> f x st')"

definition doCall :: "driver \<Rightarrow> cudaCall \<Rightarrow> reply exec" where
  "doCall drv c st =
     (let r = drv (trace st) c in (Inr r, st\<lparr>trace := trace st @ [(c, r)]\<rparr>))"

definition mark :: "cudaCall \<Rightarrow> unit exec" where
  "mark c st = (Inr (), st\<lparr>trace := trace st @ [(c, (0, 0))]\<rparr>)"

definition checked :: "bool \<Rightarrow> driver \<Rightarrow> cudaCall \<Rightarrow> nat exec" where
  "checked debug drv c =
     seq (doCall drv c) (\<lambda>(res, out).
     seq (lift (SLANG_CUDA_RETURN_ON_FAIL debug res)) (\<lambda>_. ret out))"

definition SLANG_CUDA_ASSERT_ON_FAIL :: "bool \<Rightarrow> int \<Rightarrow> error + unit" where
  "SLANG_CUDA_ASSERT_ON_FAIL debug res =
     (if isError res then SLANG_ASSERT debug False else Inr ())"

subsection \<open>CUDAResource\<close>

text \<open>
  \<open>m_target\<close> of a Value is a reference-counted pointer. Each device resource has one
  owner, so dropping the pointer runs the destructor of \<open>CUDAResource\<close>.
\<close>

definition destroyTarget :: "bool \<Rightarrow> driver \<Rightarrow> target option \<Rightarrow> unit exec" where
  "destroyTarget debug drv t =
     (case t of
        Some (CUDAResource m_cudaMemory) \<Rightarrow>
          if m_cudaMemory \<noteq> 0
          then seq (doCall drv (cudaFree m_cudaMemory)) (\<lambda>(res, _).
               lift (SLANG_CUDA_ASSERT_ON_FAIL debug res))
          else ret ()
      | _ \<Rightarrow> ret ())"

definition assignTarget :: "bool \<Rightarrow> driver \<Rightarrow> nat \<Rightarrow> target option \<Rightarrow> unit exec" where
  "assignTarget debug drv value t st =
     (let old = m_target st value
      in destroyTarget debug drv old (st\<lparr>m_target := (m_target st)(value := t)\<rparr>))"

fun getCUDAData :: "state \<Rightarrow> nat option \<Rightarrow> nat" where
  "getCUDAData st None = 0"
| "getCUDAData st (Some value) =
     (case m_target st value of
        Some (CUDAResource m_cudaMemory) \<Rightarrow> m_cudaMemory
      | _ \<Rightarrow> 0)"

subsection \<open>ScopeCUDAContext\<close>

definition initCuda :: "bool \<Rightarrow> driver \<Rightarrow> unit exec" where
  "initCuda debug drv st =
     (case cuInitRes st of
        Some res \<Rightarrow> (SLANG_CUDA_RETURN_ON_FAIL debug res, st)
      | None \<Rightarrow>
          (let r = drv (trace st) (cuInit 0);
               st' = st\<lparr>trace := trace st @ [(cuInit 0, r)], cuInitRes := Some (fst r)\<rparr>
           in (SLANG_CUDA_RETURN_ON_FAIL debug (fst r), st')))"

definition destroyContext :: "driver \<Rightarrow> unit exec" where
  "destroyContext drv st =
     (if m_context st \<noteq> 0
      then (case doCall drv (cuCtxDestroy (m_context st)) st of
              (_, st1) \<Rightarrow> (Inr (), st1\<lparr>m_context := 0\<rparr>))
      else (Inr (), st))"

definition createContext :: "driver \<Rightarrow> nat \<Rightarrow> int \<Rightarrow> unit exec" where
  "createContext drv flags device st =
     (let r = drv (trace st) (cuCtxCreate flags device);
          st1 = st\<lparr>trace := trace st @ [(cuCtxCreate flags device, r)]\<rparr>
      in if isError (fst r) then (Inl SLANG_FAIL, st1)
         else (Inr (), st1\<lparr>m_context := snd r\<rparr>))"

definition ScopeCUDAContext_init :: "bool \<Rightarrow> cudaRuntime \<Rightarrow> driver \<Rightarrow> nat \<Rightarrow> unit exec" where
  "ScopeCUDAContext_init debug rt drv flags =
     seq (initCuda debug drv) (\<lambda>_.
     seq (lift (findMaxFlopsDeviceId debug rt)) (\<lambda>deviceId.
     seq (checked debug drv (cudaSetDevice deviceId)) (\<lambda>_.
     seq (destroyContext drv) (\<lambda>_.
     createContext drv flags deviceId))))"

definition ScopeCUDAContext_dtor :: "driver \<Rightarrow> state \<Rightarrow> state" where
  "ScopeCUDAContext_dtor drv st =
     (if m_context st \<noteq> 0 then snd (doCall drv (cuCtxDestroy (m_context st)) st) else st)"

text \<open>
  A run that stops at an assertion or at an invalid access does not return to its caller,
  and the destructors of its locals do not run.
\<close>

fun returned :: "error + 'a \<Rightarrow> bool" where
  "returned (Inr _) = True"
| "returned (Inl SLANG_FAIL) = True"
| "returned (Inl (SLANG_E _)) = True"
| "returned (Inl _) = False"

definition canCreateDevice :: "bool \<Rightarrow> cudaRuntime \<Rightarrow> driver \<Rightarrow> state \<Rightarrow> (error + bool) \<times> state" where
  "canCreateDevice debug rt drv st =
     (case ScopeCUDAContext_init debug rt drv 0 (st\<lparr>m_context := 0\<rparr>) of
        (Inr _, st') \<Rightarrow> (Inr True, ScopeCUDAContext_dtor drv st')
      | (Inl e, st') \<Rightarrow>
          if returned (Inl e :: error + unit)
          then (Inr False, ScopeCUDAContext_dtor drv st')
          else (Inl e, st'))"

text \<open>\<open>cuInitOk\<close>: the result of \<open>cuInit\<close>, cached or about to be obtained, is success.\<close>

definition cuInitOk :: "driver \<Rightarrow> state \<Rightarrow> bool" where
  "cuInitOk drv st =
     (case cuInitRes st of Some res \<Rightarrow> res = 0 | None \<Rightarrow> fst (drv (trace st) (cuInit 0)) = 0)"

section \<open>Reflection, the bind set and the test layout\<close>

text \<open>
  The reflection API, \<open>BindSet\<close>, \<open>BindRoot\<close> and \<open>ShaderInputLayout\<close> are declared
  outside this file. What they hand to \<open>_compute\<close> is its input. A \<open>Value*\<close> is the
  address of a Value (\<open>None\<close> is the null pointer); \<open>valueAt\<close> reads the fields that
  this file does not change.
\<close>

datatype Kind =
    Kind_None | Struct | Array | Matrix | Vector | Scalar | ConstantBuffer | Resource
  | SamplerState | TextureBuffer | ShaderStorageBuffer | ParameterBlock
  | GenericTypeParameter | Interface

text \<open>The resource shape after masking with \<^verbatim>\<open>SLANG_RESOURCE_BASE_SHAPE_MASK\<close>.\<close>

datatype SlangResourceShape =
    SLANG_RESOURCE_NONE | SLANG_TEXTURE_1D | SLANG_TEXTURE_2D | SLANG_TEXTURE_3D
  | SLANG_TEXTURE_CUBE | SLANG_TEXTURE_BUFFER | SLANG_STRUCTURED_BUFFER
  | SLANG_BYTE_ADDRESS_BUFFER | SLANG_RESOURCE_UNKNOWN

record TypeLayout =
  getKind :: Kind
  getBaseShape :: SlangResourceShape
  getElementCount :: uint64

record Value =
  m_type :: "TypeLayout option"
  m_sizeInBytes :: nat
  m_data :: nat
  m_userIndex :: int

record Entry =
  isOutput :: bool

record BindLocation =
  getTypeLayout :: TypeLayout
  getUniform :: nat

record EntryPoint =
  getName :: string
  getComputeThreadGroupSize :: "uint64 \<times> uint64 \<times> uint64"

record Input =
  entryPoints :: "EntryPoint list"
  kernelDescIndex :: int
  codeBegin :: nat
  entries :: "Entry list"
  getValues :: "nat list"
  valueAt :: "nat \<Rightarrow> Value"
  m_buffers :: "nat option list"
  getBindings :: "(BindLocation \<times> nat option) list"
  getRootValue :: "nat option"
  getEntryPointValue :: "nat option"

section \<open>The pipeline of \<open>_compute\<close>\<close>

subsection \<open>Creating the resources of the values\<close>

definition allocateTarget :: "bool \<Rightarrow> driver \<Rightarrow> Input \<Rightarrow> nat \<Rightarrow> unit exec" where
  "allocateTarget debug drv inp value =
     seq (checked debug drv (cudaMalloc (m_sizeInBytes (valueAt inp value)))) (\<lambda>cudaMem.
     assignTarget debug drv value (Some (CUDAResource cudaMem)))"

definition createResource :: "bool \<Rightarrow> driver \<Rightarrow> Input \<Rightarrow> nat \<Rightarrow> unit exec" where
  "createResource debug drv inp value =
     (let typeLayout = m_type (valueAt inp value);
          kind = (case typeLayout of Some layout \<Rightarrow> getKind layout | None \<Rightarrow> ConstantBuffer)
      in case kind of
           ConstantBuffer \<Rightarrow> allocateTarget debug drv inp value
         | ParameterBlock \<Rightarrow> allocateTarget debug drv inp value
         | Resource \<Rightarrow>
             (case typeLayout of
                None \<Rightarrow> throw NullDereference
              | Some layout \<Rightarrow>
                  (case getBaseShape layout of
                     SLANG_TEXTURE_2D \<Rightarrow>
                       lift (SLANG_ASSERT debug (m_userIndex (valueAt inp value) \<ge> 0))
                   | SLANG_BYTE_ADDRESS_BUFFER \<Rightarrow> allocateTarget debug drv inp value
                   | SLANG_STRUCTURED_BUFFER \<Rightarrow> allocateTarget debug drv inp value
                   | _ \<Rightarrow> ret ()))
         | _ \<Rightarrow> ret ())"

fun createResources :: "bool \<Rightarrow> driver \<Rightarrow> Input \<Rightarrow> nat list \<Rightarrow> unit exec" where
  "createResources debug drv inp [] = ret ()"
| "createResources debug drv inp (value # rest) =
     seq (createResource debug drv inp value) (\<lambda>_. createResources debug drv inp rest)"

subsection \<open>Setting the bindings\<close>

definition writeUniform :: "nat \<Rightarrow> nat \<Rightarrow> unit exec" where
  "writeUniform slot p st =
     (if slot = 0 then (Inl NullDereference, st)
      else (Inr (), st\<lparr>uniforms := (uniforms st)(slot := Some p)\<rparr>))"

definition setBinding :: "BindLocation \<times> nat option \<Rightarrow> unit exec" where
  "setBinding b st =
     (case b of (location, value) \<Rightarrow>
      let typeLayout = getTypeLayout location
      in case getKind typeLayout of
           Array \<Rightarrow>
             (let elementCount = (ucast (getElementCount typeLayout) :: int32)
              in if elementCount = 0
                 then (let array = getUniform location
                       in if value \<noteq> None \<and> array \<noteq> 0
                          then writeUniform array (getCUDAData st value) st
                          else (Inr (), st))
                 else (Inr (), st))
         | ConstantBuffer \<Rightarrow> writeUniform (getUniform location) (getCUDAData st value) st
         | ParameterBlock \<Rightarrow> writeUniform (getUniform location) (getCUDAData st value) st
         | Resource \<Rightarrow>
             (case getBaseShape typeLayout of
                SLANG_BYTE_ADDRESS_BUFFER \<Rightarrow>
                  writeUniform (getUniform location) (getCUDAData st value) st
              | SLANG_STRUCTURED_BUFFER \<Rightarrow>
                  writeUniform (getUniform location) (getCUDAData st value) st
              | _ \<Rightarrow> (Inr (), st))
         | _ \<Rightarrow> (Inr (), st))"

fun setBindings :: "(BindLocation \<times> nat option) list \<Rightarrow> unit exec" where
  "setBindings [] = ret ()"
| "setBindings (b # rest) = seq (setBinding b) (\<lambda>_. setBindings rest)"

subsection \<open>Copying the host data over\<close>

definition uploadValue :: "bool \<Rightarrow> driver \<Rightarrow> Input \<Rightarrow> nat \<Rightarrow> unit exec" where
  "uploadValue debug drv inp value st =
     (let cudaMem = getCUDAData st (Some value)
      in if m_data (valueAt inp value) \<noteq> 0 \<and> cudaMem \<noteq> 0
         then seq (checked debug drv
                     (cudaMemcpy cudaMem (m_data (valueAt inp value))
                        (m_sizeInBytes (valueAt inp value)) cudaMemcpyHostToDevice))
                (\<lambda>_. ret ()) st
         else (Inr (), st))"

fun upload :: "bool \<Rightarrow> driver \<Rightarrow> Input \<Rightarrow> nat list \<Rightarrow> unit exec" where
  "upload debug drv inp [] = ret ()"
| "upload debug drv inp (value # rest) =
     seq (uploadValue debug drv inp value) (\<lambda>_. upload debug drv inp rest)"

subsection \<open>Launching the kernel\<close>

definition stream :: nat where
  "stream = 0"

definition launchKernel :: "bool \<Rightarrow> driver \<Rightarrow> Input \<Rightarrow> nat \<Rightarrow> EntryPoint \<Rightarrow> unit exec" where
  "launchKernel debug drv inp kernelFunction entryPoint st =
     (let uniformCUDAData = getCUDAData st (getRootValue inp);
          entryPointCUDAData = getCUDAData st (getEntryPointValue inp);
          args = [entryPointCUDAData, uniformCUDAData]
      in case getComputeThreadGroupSize entryPoint of (x, y, z) \<Rightarrow>
         seq (checked debug drv
                (cuLaunchKernel kernelFunction (1, 1, 1) (ucast x, ucast y, ucast z) 0 stream args))
           (\<lambda>_. if stream \<noteq> 0
                then seq (checked debug drv (cudaStreamSynchronize stream)) (\<lambda>_. ret ())
                else seq (checked debug drv cudaDeviceSynchronize) (\<lambda>_. ret ())) st)"

definition launch :: "bool \<Rightarrow> driver \<Rightarrow> Input \<Rightarrow> nat \<Rightarrow> EntryPoint \<Rightarrow> unit exec" where
  "launch debug drv inp kernelFunction entryPoint =
     seq (checked debug drv (cuFuncGetAttribute CU_FUNC_ATTRIBUTE_MAX_THREADS_PER_BLOCK kernelFunction))
       (\<lambda>maxTheadsPerBlock.
     seq (checked debug drv (cuFuncGetAttribute CU_FUNC_ATTRIBUTE_SHARED_SIZE_BYTES kernelFunction))
       (\<lambda>sharedSizeInBytes.
     launchKernel debug drv inp kernelFunction entryPoint))"

subsection \<open>Copying the results back\<close>

definition copyBack :: "bool \<Rightarrow> driver \<Rightarrow> Input \<Rightarrow> nat \<Rightarrow> unit exec" where
  "copyBack debug drv inp i st =
     (if i < length (m_buffers inp)
      then
        (let entry = entries inp ! i;
             value = m_buffers inp ! i
         in if isOutput entry
            then (let cudaMem = getCUDAData st value
                  in case value of
                       None \<Rightarrow> (Inr (), st)
                     | Some v \<Rightarrow>
                         if m_data (valueAt inp v) \<noteq> 0 \<and> cudaMem \<noteq> 0
                         then seq (checked debug drv
                                     (cudaMemcpy (m_data (valueAt inp v)) cudaMem
                                        (m_sizeInBytes (valueAt inp v)) cudaMemcpyDeviceToHost))
                                (\<lambda>_. ret ()) st
                         else (Inr (), st))
            else (Inr (), st))
      else (Inl IndexOutOfRange, st))"

fun download :: "bool \<Rightarrow> driver \<Rightarrow> Input \<Rightarrow> nat list \<Rightarrow> unit exec" where
  "download debug drv inp [] = ret ()"
| "download debug drv inp (i # rest) =
     seq (copyBack debug drv inp i) (\<lambda>_. download debug drv inp rest)"

subsection \<open>Releasing the targets\<close>

text \<open>
  Modelled from the spec: \<open>BindSet::releaseValueTargets\<close> is declared outside this file.
  It frees every device resource owned by every Value: it goes through the values of the
  bind set and drops the target of each.
\<close>

fun releaseTargets :: "bool \<Rightarrow> driver \<Rightarrow> nat list \<Rightarrow> unit exec" where
  "releaseTargets debug drv [] = ret ()"
| "releaseTargets debug drv (value # rest) =
     seq (assignTarget debug drv value None) (\<lambda>_. releaseTargets debug drv rest)"

definition bindSet_releaseValueTargets :: "bool \<Rightarrow> driver \<Rightarrow> Input \<Rightarrow> unit exec" where
  "bindSet_releaseValueTargets debug drv inp =
     seq (mark releaseValueTargets) (\<lambda>_. releaseTargets debug drv (getValues inp))"

subsection \<open>\<open>_compute\<close> and \<open>execute\<close>\<close>

text \<open>
  \<open>stages\<close> is the body of \<open>_compute\<close> up to the end of its inner block, in three
  parts: the entry point and its function, the values of the test, and the round trip
  from the creation of the resources to the copy back. \<open>compute\<close> adds the release of
  the targets that follows the block. \<open>bindRoot.init\<close>, \<open>addDefaultValues\<close> and
  \<open>getValueBuffers\<close> return nothing and make no call of the driver; what they produce
  is in the input.
\<close>

definition getEntryPointByIndex :: "EntryPoint list \<Rightarrow> nat \<Rightarrow> EntryPoint option" where
  "getEntryPointByIndex eps i = (if i < length eps then Some (eps ! i) else None)"

definition resolveEntryPoint :: "bool \<Rightarrow> driver \<Rightarrow> nat \<Rightarrow> Input \<Rightarrow> (EntryPoint \<times> nat) exec" where
  "resolveEntryPoint debug drv module inp =
     seq (lift (SLANG_ASSERT debug (length (entryPoints inp) = 1))) (\<lambda>_.
     seq (case getEntryPointByIndex (entryPoints inp) 0 of
            None \<Rightarrow> throw NullDereference
          | Some entryPoint \<Rightarrow> ret entryPoint) (\<lambda>entryPoint.
     seq (checked debug drv (cuModuleGetFunction module (getName entryPoint))) (\<lambda>kernelFunction.
     ret (entryPoint, kernelFunction))))"

definition addValues :: "driver \<Rightarrow> unit exec" where
  "addValues drv =
     seq (doCall drv addBindSetValues) (\<lambda>(res, _).
     if res < 0 then throw (SLANG_E res) else ret ())"

definition roundTrip :: "bool \<Rightarrow> driver \<Rightarrow> Input \<Rightarrow> nat \<Rightarrow> EntryPoint \<Rightarrow> unit exec" where
  "roundTrip debug drv inp kernelFunction entryPoint =
     seq (createResources debug drv inp (getValues inp)) (\<lambda>_.
     seq (setBindings (getBindings inp)) (\<lambda>_.
     seq (upload debug drv inp (getValues inp)) (\<lambda>_.
     seq (launch debug drv inp kernelFunction entryPoint) (\<lambda>_.
     seq (download debug drv inp [0..<length (entries inp)]) (\<lambda>_.
     if stream \<noteq> 0
     then seq (checked debug drv (cudaStreamDestroy stream)) (\<lambda>_. ret ())
     else ret ())))))"

definition stages :: "bool \<Rightarrow> driver \<Rightarrow> nat \<Rightarrow> Input \<Rightarrow> unit exec" where
  "stages debug drv module inp =
     seq (resolveEntryPoint debug drv module inp) (\<lambda>(entryPoint, kernelFunction).
     seq (addValues drv) (\<lambda>_.
     roundTrip debug drv inp kernelFunction entryPoint))"

definition compute :: "bool \<Rightarrow> driver \<Rightarrow> nat \<Rightarrow> Input \<Rightarrow> unit exec" where
  "compute debug drv module inp =
     seq (stages debug drv module inp) (\<lambda>_. bindSet_releaseValueTargets debug drv inp)"

definition executeBody :: "bool \<Rightarrow> cudaRuntime \<Rightarrow> driver \<Rightarrow> Input \<Rightarrow> unit exec" where
  "executeBody debug rt drv inp =
     seq (ScopeCUDAContext_init debug rt drv 0) (\<lambda>_.
     if kernelDescIndex inp < 0 then throw SLANG_FAIL
     else
       seq (checked debug drv (cuModuleLoadData (codeBegin inp))) (\<lambda>module.
       seq (compute debug drv module inp) (\<lambda>_.
       seq (checked debug drv (cuModuleUnload module)) (\<lambda>_. ret ()))))"

definition execute :: "bool \<Rightarrow> cudaRuntime \<Rightarrow> driver \<Rightarrow> Input \<Rightarrow> unit exec" where
  "execute debug rt drv inp st =
     (case executeBody debug rt drv inp (st\<lparr>m_context := 0\<rparr>) of (r, st') \<Rightarrow>
      (r, if returned r then ScopeCUDAContext_dtor drv st' else st'))"

section \<open>Reading the trace\<close>

fun isFree :: "event \<Rightarrow> bool" where
  "isFree (cudaFree _, _) = True"
| "isFree _ = False"

fun isRelease :: "event \<Rightarrow> bool" where
  "isRelease (releaseValueTargets, _) = True"
| "isRelease _ = False"

fun isMalloc :: "event \<Rightarrow> bool" where
  "isMalloc (cudaMalloc _, _) = True"
| "isMalloc _ = False"

fun isLaunch :: "event \<Rightarrow> bool" where
  "isLaunch (cuLaunchKernel _ _ _ _ _ _, _) = True"
| "isLaunch _ = False"

fun isCopyBack :: "event \<Rightarrow> bool" where
  "isCopyBack (cudaMemcpy _ _ _ cudaMemcpyDeviceToHost, _) = True"
| "isCopyBack _ = False"

text \<open>
  \<open>stageFailure\<close>: the call is one that a stage before the release makes, and its
  reply is the failure that stage checks for. The result of \<open>cuCtxDestroy\<close> is not
  looked at, \<open>cudaFree\<close> belongs to the release, and \<open>cuModuleUnload\<close> comes after it.
\<close>

fun stageFailure :: "event \<Rightarrow> bool" where
  "stageFailure (addBindSetValues, (res, _)) = (res < 0)"
| "stageFailure (releaseValueTargets, _) = False"
| "stageFailure (cudaFree _, _) = False"
| "stageFailure (cuModuleUnload _, _) = False"
| "stageFailure (cuCtxDestroy _, _) = False"
| "stageFailure (_, (res, _)) = isError res"

text \<open>Relations between the state before and the state after a part of the run.\<close>

definition follows :: "(state \<Rightarrow> state \<Rightarrow> bool) \<Rightarrow> 'a exec \<Rightarrow> bool" where
  "follows R m = (\<forall>st r st'. m st = (r, st') \<longrightarrow> R st st')"

definition emitsOnly :: "(event \<Rightarrow> bool) \<Rightarrow> state \<Rightarrow> state \<Rightarrow> bool" where
  "emitsOnly P st st' = (\<exists>evs. trace st' = trace st @ evs \<and> (\<forall>e\<in>set evs. P e))"

definition sameTargets :: "state \<Rightarrow> state \<Rightarrow> bool" where
  "sameTargets st st' = (m_target st' = m_target st)"

text \<open>
  \<open>reportsFailure debug r\<close>: the run ended with a failure status for the caller, or, in a
  build with assertions, at the assertion of \<^verbatim>\<open>SLANG_CUDA_RETURN_ON_FAIL\<close>.
\<close>

fun failureCode :: "bool \<Rightarrow> error \<Rightarrow> bool" where
  "failureCode debug SLANG_FAIL = True"
| "failureCode debug (SLANG_E _) = True"
| "failureCode debug AssertFailed = debug"
| "failureCode debug _ = False"

definition reportsFailure :: "bool \<Rightarrow> error + 'a \<Rightarrow> bool" where
  "reportsFailure debug r = (case r of Inl e \<Rightarrow> failureCode debug e | Inr _ \<Rightarrow> False)"

text \<open>
  \<open>haltedAt debug st r st'\<close>: between \<open>st\<close> and \<open>st'\<close> only the last call can be a stage
  failure, and if it is one the result \<open>r\<close> reports it.
\<close>

definition haltedAt :: "bool \<Rightarrow> state \<Rightarrow> error + 'a \<Rightarrow> state \<Rightarrow> bool" where
  "haltedAt debug st r st' =
     (\<exists>evs. trace st' = trace st @ evs
        \<and> (\<forall>e\<in>set (butlast evs). \<not> stageFailure e)
        \<and> ((\<exists>e\<in>set evs. stageFailure e) \<longrightarrow> reportsFailure debug r))"

definition stopsAtFailure :: "bool \<Rightarrow> 'a exec \<Rightarrow> bool" where
  "stopsAtFailure debug m = (\<forall>st r st'. m st = (r, st') \<longrightarrow> haltedAt debug st r st')"

text \<open>
  \<open>quiet\<close>: an event that is none of the kinds the properties below look for.
\<close>

definition quiet :: "event \<Rightarrow> bool" where
  "quiet e = (\<not> isRelease e \<and> \<not> isFree e \<and> \<not> isMalloc e \<and> \<not> isLaunch e \<and> \<not> isCopyBack e)"

text \<open>The block dimensions the launch passes: each thread-group size converted to \<^verbatim>\<open>int\<close>.\<close>

definition blockOf :: "EntryPoint \<Rightarrow> uint32 \<times> uint32 \<times> uint32" where
  "blockOf entryPoint =
     (case getComputeThreadGroupSize entryPoint of (x, y, z) \<Rightarrow> (ucast x, ucast y, ucast z))"

fun launchShape :: "EntryPoint \<Rightarrow> event \<Rightarrow> bool" where
  "launchShape entryPoint (cuLaunchKernel f grid block sharedMemBytes hStream args, rep) =
     (grid = (1, 1, 1) \<and> block = blockOf entryPoint \<and> sharedMemBytes = 0 \<and> length args = 2)"
| "launchShape entryPoint _ = True"

text \<open>
  \<open>launchedWith st inp entryPoint e\<close>: if \<open>e\<close> is a launch, it is the launch of one
  block with the thread-group size of the entry point as block dimensions, no shared
  memory, and the two pointers as arguments that the targets of \<open>st\<close> give for the Value
  of the entry point and for the root Value, in this order.
\<close>

fun launchedWith :: "state \<Rightarrow> Input \<Rightarrow> EntryPoint \<Rightarrow> event \<Rightarrow> bool" where
  "launchedWith st inp entryPoint (cuLaunchKernel f grid block sharedMemBytes hStream args, rep) =
     (grid = (1, 1, 1) \<and> block = blockOf entryPoint \<and> sharedMemBytes = 0
      \<and> args = [getCUDAData st (getEntryPointValue inp), getCUDAData st (getRootValue inp)])"
| "launchedWith st inp entryPoint _ = True"

definition launchesWith :: "Input \<Rightarrow> EntryPoint \<Rightarrow> 'a exec \<Rightarrow> bool" where
  "launchesWith inp entryPoint m =
     (\<forall>st r st'. m st = (r, st') \<longrightarrow>
        (\<exists>evs. trace st' = trace st @ evs \<and> (\<forall>e\<in>set evs. launchedWith st' inp entryPoint e)))"

text \<open>What the launch and the copy back may emit.\<close>

definition launcherEvent :: "EntryPoint \<Rightarrow> event \<Rightarrow> bool" where
  "launcherEvent ep e =
     (launchShape ep e \<and> \<not> isRelease e \<and> \<not> isFree e \<and> \<not> isMalloc e \<and> \<not> isCopyBack e)"

definition copyBackEvent :: "event \<Rightarrow> bool" where
  "copyBackEvent e = (isCopyBack e \<and> \<not> isRelease e \<and> \<not> isFree e \<and> \<not> isMalloc e \<and> \<not> isLaunch e)"

text \<open>
  \<open>buffered\<close>: the kinds for which the allocation pass calls \<open>cudaMalloc\<close>.
  \<open>attached inp n st value\<close>: the target of the Value is a \<open>CUDAResource\<close> whose memory
  a successful \<open>cudaMalloc\<close> of exactly the Value's size returned, after the first \<open>n\<close>
  events of the trace.
\<close>

definition buffered :: "Value \<Rightarrow> bool" where
  "buffered v =
     (case m_type v of
        None \<Rightarrow> True
      | Some layout \<Rightarrow>
          getKind layout = ConstantBuffer \<or> getKind layout = ParameterBlock
        \<or> (getKind layout = Resource
           \<and> (getBaseShape layout = SLANG_BYTE_ADDRESS_BUFFER
              \<or> getBaseShape layout = SLANG_STRUCTURED_BUFFER)))"


text \<open>
  The copy back that entry \<open>i\<close> of the test layout gets, if any, when the targets are
  those of \<open>st\<close>.
\<close>

definition copyBackCall :: "Input \<Rightarrow> state \<Rightarrow> nat \<Rightarrow> cudaCall option" where
  "copyBackCall inp st i =
     (if isOutput (entries inp ! i)
      then (case m_buffers inp ! i of
              None \<Rightarrow> None
            | Some v \<Rightarrow>
                if m_data (valueAt inp v) \<noteq> 0 \<and> getCUDAData st (Some v) \<noteq> 0
                then Some (cudaMemcpy (m_data (valueAt inp v)) (getCUDAData st (Some v))
                             (m_sizeInBytes (valueAt inp v)) cudaMemcpyDeviceToHost)
                else None)
      else None)"

text \<open>
  \<open>freshly vs m\<close>: started where none of the Values \<open>vs\<close> has a target, \<open>m\<close> neither
  releases nor frees anything.
\<close>

definition freshly :: "nat list \<Rightarrow> 'a exec \<Rightarrow> bool" where
  "freshly vs m =
     (\<forall>st r st'. m st = (r, st') \<longrightarrow> (\<forall>v\<in>set vs. m_target st v = None) \<longrightarrow>
        emitsOnly (\<lambda>e. \<not> isRelease e \<and> \<not> isFree e) st st')"

text \<open>
  The device memory that the calls of a trace allocate (a successful \<^verbatim>\<open>cudaMalloc\<close> that
  gives a pointer other than null) and free, and the device memory that the targets of
  the Values own: the destructor of \<open>CUDAResource\<close> frees a pointer other than null.
\<close>

fun allocation :: "event \<Rightarrow> nat option" where
  "allocation (cudaMalloc n, (res, p)) = (if res = 0 \<and> p \<noteq> 0 then Some p else None)"
| "allocation _ = None"

fun freeing :: "event \<Rightarrow> nat option" where
  "freeing (cudaFree p, _) = Some p"
| "freeing _ = None"

fun ownedMemory :: "target option \<Rightarrow> nat option" where
  "ownedMemory (Some (CUDAResource m_cudaMemory)) =
     (if m_cudaMemory \<noteq> 0 then Some m_cudaMemory else None)"
| "ownedMemory _ = None"

definition allocated :: "event list \<Rightarrow> nat list" where
  "allocated evs = List.map_filter allocation evs"

definition freed :: "event list \<Rightarrow> nat list" where
  "freed evs = List.map_filter freeing evs"

definition owned :: "state \<Rightarrow> nat list \<Rightarrow> nat list" where
  "owned st vs = List.map_filter (\<lambda>v. ownedMemory (m_target st v)) vs"

text \<open>
  The calls that can fail once the release has begun: a \<^verbatim>\<open>cudaFree\<close>, whose failure only
  an assertion looks at, and \<^verbatim>\<open>cuModuleUnload\<close>.
\<close>

fun freeFailure :: "event \<Rightarrow> bool" where
  "freeFailure (cudaFree _, (res, _)) = isError res"
| "freeFailure _ = False"

fun unloadFailure :: "event \<Rightarrow> bool" where
  "unloadFailure (cuModuleUnload _, (res, _)) = isError res"
| "unloadFailure _ = False"

text \<open>
  \<open>isStatus e\<close>: \<open>e\<close> is a status that a function returns to its caller.
  \<open>failsAtCall m\<close>: whenever \<open>m\<close> returns a failure status, one of its calls has
  failed. \<open>isContextCall\<close>: a call of the set-up or the destruction of the context.
  \<open>neverStatus m\<close>: \<open>m\<close> returns no failure status at all.
  \<open>statusBeforeAllocating m\<close>: \<open>m\<close> returns a failure status only before its first
  \<^verbatim>\<open>cudaMalloc\<close>.
\<close>

fun isContextCall :: "event \<Rightarrow> bool" where
  "isContextCall (cuInit _, _) = True"
| "isContextCall (cudaSetDevice _, _) = True"
| "isContextCall (cuCtxCreate _ _, _) = True"
| "isContextCall (cuCtxDestroy _, _) = True"
| "isContextCall _ = False"

fun isStatus :: "error \<Rightarrow> bool" where
  "isStatus SLANG_FAIL = True"
| "isStatus (SLANG_E _) = True"
| "isStatus _ = False"

definition neverStatus :: "'a exec \<Rightarrow> bool" where
  "neverStatus m = (\<forall>st e st'. m st = (Inl e, st') \<longrightarrow> \<not> isStatus e)"

definition statusBeforeAllocating :: "'a exec \<Rightarrow> bool" where
  "statusBeforeAllocating m =
     (\<forall>st e st'. m st = (Inl e, st') \<longrightarrow> isStatus e \<longrightarrow>
        (\<exists>evs. trace st' = trace st @ evs \<and> (\<forall>x\<in>set evs. \<not> isMalloc x)))"

definition failsAtCall :: "'a exec \<Rightarrow> bool" where
  "failsAtCall m =
     (\<forall>st e st'. m st = (Inl e, st') \<longrightarrow> isStatus e \<longrightarrow>
        (\<exists>evs. trace st' = trace st @ evs \<and> (\<exists>x\<in>set evs. stageFailure x)))"

text \<open>
  \<open>beforeRelease\<close> and \<open>fromRelease\<close>: \<open>executeBody\<close> cut after the last stage that
  precedes the release.
\<close>

definition beforeRelease :: "bool \<Rightarrow> cudaRuntime \<Rightarrow> driver \<Rightarrow> Input \<Rightarrow> nat exec" where
  "beforeRelease debug rt drv inp =
     seq (ScopeCUDAContext_init debug rt drv 0) (\<lambda>_.
     if kernelDescIndex inp < 0 then throw SLANG_FAIL
     else
       seq (checked debug drv (cuModuleLoadData (codeBegin inp))) (\<lambda>module.
       seq (stages debug drv module inp) (\<lambda>_. ret module)))"

definition fromRelease :: "bool \<Rightarrow> driver \<Rightarrow> Input \<Rightarrow> nat \<Rightarrow> unit exec" where
  "fromRelease debug drv inp module =
     seq (bindSet_releaseValueTargets debug drv inp) (\<lambda>_.
     seq (checked debug drv (cuModuleUnload module)) (\<lambda>_. ret ()))"

section \<open>Concrete inputs\<close>

text \<open>
  Four devices: device 1 is in the prohibited compute mode and would have the highest
  score; devices 2 and 3 tie for the highest score among the others.
\<close>

definition rtTie :: cudaRuntime where
  "rtTie = \<lparr>cudaGetDeviceCount = (0, 4),
     cudaDeviceGetAttribute = (\<lambda>attr d.
       (0, case attr of
             cudaDevAttrComputeMode \<Rightarrow> (if d = 1 then 2 else 0)
           | cudaDevAttrComputeCapabilityMajor \<Rightarrow> (if d = 0 then 6 else 7)
           | cudaDevAttrComputeCapabilityMinor \<Rightarrow> (if d = 0 then 1 else 5)
           | cudaDevAttrMultiProcessorCount \<Rightarrow> (if d = 0 then 10 else if d = 1 then 80 else 40)
           | cudaDevAttrClockRate \<Rightarrow> (if d = 0 then 1500000 else 1590000)))\<rparr>"




text \<open>The state of a fresh process, and a driver all of whose calls succeed.\<close>

definition st0 :: state where
  "st0 = \<lparr>trace = [], cuInitRes = None, m_context = 0, m_target = (\<lambda>_. None),
          uniforms = (\<lambda>_. None)\<rparr>"

definition drvOk :: driver where
  "drvOk history c =
     (0, case c of cudaMalloc n \<Rightarrow> 4096 + 256 * length history | _ \<Rightarrow> Suc (length history))"

text \<open>No device: the count query reports error 100 and a count of 0.\<close>

definition rtNoDevice :: cudaRuntime where
  "rtNoDevice = \<lparr>cudaGetDeviceCount = (100, 0),
     cudaDeviceGetAttribute = (\<lambda>attr d. (101, 0))\<rparr>"

text \<open>Two devices, both in the prohibited compute mode.\<close>

definition rtProhibited :: cudaRuntime where
  "rtProhibited = \<lparr>cudaGetDeviceCount = (0, 2),
     cudaDeviceGetAttribute = (\<lambda>attr d.
       (0, case attr of
             cudaDevAttrComputeMode \<Rightarrow> 2
           | cudaDevAttrComputeCapabilityMajor \<Rightarrow> 7
           | cudaDevAttrComputeCapabilityMinor \<Rightarrow> 5
           | cudaDevAttrMultiProcessorCount \<Rightarrow> 40
           | cudaDevAttrClockRate \<Rightarrow> 1590000))\<rparr>"

text \<open>
  A test with one input and one output buffer of 32 bytes each, a constant buffer as
  root Value, and the parameter block of the entry point, a Value without a type layout;
  entry point \<open>main\<close> with thread groups of (8, 1, 1).
\<close>

definition structuredBuffer :: TypeLayout where
  "structuredBuffer =
     \<lparr>getKind = Resource, getBaseShape = SLANG_STRUCTURED_BUFFER, getElementCount = 0\<rparr>"

definition constantBuffer :: TypeLayout where
  "constantBuffer =
     \<lparr>getKind = ConstantBuffer, getBaseShape = SLANG_RESOURCE_NONE, getElementCount = 0\<rparr>"

definition texture2D :: TypeLayout where
  "texture2D = \<lparr>getKind = Resource, getBaseShape = SLANG_TEXTURE_2D, getElementCount = 0\<rparr>"

definition inpTiny :: Input where
  "inpTiny =
     \<lparr>entryPoints = [\<lparr>getName = ''main'', getComputeThreadGroupSize = (8, 1, 1)\<rparr>],
      kernelDescIndex = 0,
      codeBegin = 500,
      entries = [\<lparr>isOutput = False\<rparr>, \<lparr>isOutput = True\<rparr>],
      getValues = [1, 2, 3, 4],
      valueAt = (\<lambda>v.
        if v = 1
        then \<lparr>m_type = Some constantBuffer, m_sizeInBytes = 16, m_data = 1001, m_userIndex = - 1\<rparr>
        else if v = 2
        then \<lparr>m_type = None, m_sizeInBytes = 8, m_data = 1002, m_userIndex = - 1\<rparr>
        else if v = 3
        then \<lparr>m_type = Some structuredBuffer, m_sizeInBytes = 32, m_data = 1003, m_userIndex = 0\<rparr>
        else \<lparr>m_type = Some structuredBuffer, m_sizeInBytes = 32, m_data = 1004, m_userIndex = 1\<rparr>),
      m_buffers = [Some 3, Some 4],
      getBindings =
        [(\<lparr>getTypeLayout = structuredBuffer, getUniform = 2000\<rparr>, Some 3),
         (\<lparr>getTypeLayout = structuredBuffer, getUniform = 2008\<rparr>, Some 4)],
      getRootValue = Some 1,
      getEntryPointValue = Some 2\<rparr>"

text \<open>The same test with a 2D texture as its output.\<close>

definition inpTexture :: Input where
  "inpTexture =
     inpTiny\<lparr>valueAt := (\<lambda>v.
        if v = 4
        then \<lparr>m_type = Some texture2D, m_sizeInBytes = 32, m_data = 1004, m_userIndex = 1\<rparr>
        else valueAt inpTiny v)\<rparr>"

text \<open>The same test on a module whose reflection reports two entry points.\<close>

definition inpTwoEntryPoints :: Input where
  "inpTwoEntryPoints =
     inpTiny\<lparr>entryPoints :=
       [\<lparr>getName = ''main'', getComputeThreadGroupSize = (8, 1, 1)\<rparr>,
        \<lparr>getName = ''other'', getComputeThreadGroupSize = (4, 4, 1)\<rparr>]\<rparr>"

text \<open>A driver whose calls succeed except the unloading of the module.\<close>

definition drvFailUnload :: driver where
  "drvFailUnload history c =
     (case c of
        cudaMalloc n \<Rightarrow> (0, 4096 + 256 * length history)
      | cuModuleUnload m \<Rightarrow> (999, 0)
      | _ \<Rightarrow> (0, Suc (length history)))"

text \<open>A driver whose calls succeed except the synchronization after the launch.\<close>

definition drvFailSync :: driver where
  "drvFailSync history c =
     (case c of
        cudaMalloc n \<Rightarrow> (0, 4096 + 256 * length history)
      | cudaDeviceSynchronize \<Rightarrow> (700, 0)
      | _ \<Rightarrow> (0, Suc (length history)))"

section \<open>Properties\<close>

subsection \<open>Basic facts\<close>

lemma andThen_Inr: "andThen r f = Inr y \<longleftrightarrow> (\<exists>x. r = Inr x \<and> f x = Inr y)"
  by (cases r) (simp_all add: andThen_def)

lemma RETURN_ON_FAIL_Inr: "SLANG_CUDA_RETURN_ON_FAIL debug r = Inr u \<longleftrightarrow> r = 0"
  by (simp add: SLANG_CUDA_RETURN_ON_FAIL_def isError_def SLANG_ASSERT_def)

lemma if_Inr_eq: "((if c then Inr a else Inr b) = Inr s') \<longleftrightarrow> s' = (if c then a else b)"
  by auto

subsection \<open>Cores per multiprocessor\<close>

lemma findSM_None: "findSM xs sm = None \<longleftrightarrow> sm \<notin> fst ` set xs"
  by (induction xs) (force split: if_splits)+

lemma last_infos: "last infos = (0x75, 64)"
  by (simp add: infos_def)

lemma calcSM_Inr:
  "calcSMCountPerMultiProcessor debug major minor = Inr c \<Longrightarrow>
     c = (case findSM infos (push_bit 4 major + minor) of Some k \<Rightarrow> k | None \<Rightarrow> snd (last infos))"
  by (auto simp: calcSMCountPerMultiProcessor_def Let_def andThen_Inr split: option.splits)

lemma smSel_Inr:
  "(if major = 9999 \<and> minor = 9999 then Inr 1
    else calcSMCountPerMultiProcessor debug major minor) = Inr c
    \<Longrightarrow> c = coresPerSM major minor"
  by (auto simp: coresPerSM_def dest: calcSM_Inr split: if_splits)

text \<open>
  C5, as stated, fails. The pair (2, 0) has the code \<open>0x20\<close>, which is no key of the
  table; in a debug build the assertion \<open>sm > last.coreCount\<close> compares 32 with 64 and
  fires. The pair (2, 16) is no pair of the table either, its code \<open>0x30\<close> is the key of
  (3, 0), and the function returns 192, not the 64 of the last entry.
\<close>

theorem calcSMCount_unlisted_counterexample:
  "push_bit 4 (2 :: int32) + 0 \<notin> fst ` set infos
   \<and> calcSMCountPerMultiProcessor True 2 0 = Inl AssertFailed
   \<and> calcSMCountPerMultiProcessor False 2 16 = Inr 192
   \<and> snd (last infos) = 64"
  by (simp add: calcSMCountPerMultiProcessor_def infos_def andThen_def SLANG_ASSERT_def
        word_sless_alt)

text \<open>
  C5, amended: for every pair whose code \<open>(major << 4) + minor\<close> equals no key of the
  table, the function returns the core count of the table's last entry and does not fail,
  in a build without assertions for every such pair, and in a debug build for every such
  pair that is newer than the last key \<open>0x75\<close>.
\<close>

theorem calcSMCount_unlisted:
  assumes "push_bit 4 major + minor \<notin> fst ` set infos"
    and "\<not> debug \<or> 0x75 <s push_bit 4 major + minor"
  shows "calcSMCountPerMultiProcessor debug major minor = Inr (snd (last infos))"
proof -
  have n: "findSM infos (push_bit 4 major + minor) = None"
    using assms(1) by (simp add: findSM_None)
  have "debug \<Longrightarrow> (64::int32) <s push_bit 4 major + minor"
    using assms(2) by (auto simp: word_sless_alt)
  then show ?thesis
    using n
    by (auto simp: calcSMCountPerMultiProcessor_def Let_def andThen_def SLANG_ASSERT_def
          last_infos)
qed

theorem calcSMCount_unlisted_witness:
  "push_bit 4 (8 :: int32) + 0 \<notin> fst ` set infos
   \<and> (0x75 :: int32) <s push_bit 4 8 + 0
   \<and> calcSMCountPerMultiProcessor True 8 0 = Inr 64"
proof -
  have a: "push_bit 4 (8 :: int32) + 0 \<notin> fst ` set infos"
    by (simp add: infos_def)
  have b: "(0x75 :: int32) <s push_bit 4 8 + 0"
    by (simp add: word_sless_alt)
  from calcSMCount_unlisted [OF a disjI2 [OF b]]
  have "calcSMCountPerMultiProcessor True 8 0 = Inr 64"
    by (simp add: last_infos)
  with a b show ?thesis by blast
qed

subsection \<open>Device selection\<close>

lemma getAttribute_Inr:
  "getAttribute debug rt a d = Inr v \<longleftrightarrow>
     fst (cudaDeviceGetAttribute rt a d) = 0 \<and> v = snd (cudaDeviceGetAttribute rt a d)"
  by (auto simp: getAttribute_def andThen_Inr RETURN_ON_FAIL_Inr split: prod.splits)

lemma findStep_Inr:
  assumes "findStep debug rt d s = Inr s'"
  shows "if eligible rt d
         then maxPerfDevice s' = (if deviceScore rt d > maxComputePerf s then d else maxPerfDevice s)
            \<and> maxComputePerf s' = (if deviceScore rt d > maxComputePerf s then deviceScore rt d else maxComputePerf s)
         else maxPerfDevice s' = maxPerfDevice s \<and> maxComputePerf s' = maxComputePerf s"
proof (cases "eligible rt d")
  case False
  with assms show ?thesis
    by (auto simp: findStep_def andThen_Inr getAttribute_Inr eligible_def)
next
  case True
  let ?major = "snd (cudaDeviceGetAttribute rt cudaDevAttrComputeCapabilityMajor d)"
  let ?minor = "snd (cudaDeviceGetAttribute rt cudaDevAttrComputeCapabilityMinor d)"
  let ?mp = "snd (cudaDeviceGetAttribute rt cudaDevAttrMultiProcessorCount d)"
  let ?clock = "snd (cudaDeviceGetAttribute rt cudaDevAttrClockRate d)"
  from assms True obtain sm where
    sm: "(if ?major = 9999 \<and> ?minor = 9999 then Inr 1
          else calcSMCountPerMultiProcessor debug ?major ?minor) = Inr sm"
    and s': "s' = (if compute_perf ?mp sm ?clock > maxComputePerf s
                  then s\<lparr>smPerMultiproc := sm, maxComputePerf := compute_perf ?mp sm ?clock,
                          maxPerfDevice := d\<rparr>
                  else s\<lparr>smPerMultiproc := sm\<rparr>)"
    by (auto simp: findStep_def andThen_Inr getAttribute_Inr eligible_def Let_def if_Inr_eq)
  from sm have "sm = coresPerSM ?major ?minor" by (rule smSel_Inr)
  with s' True show ?thesis
    by (simp add: deviceScore_def)
qed

lemma findStep_total:
  assumes "deviceOk debug rt d"
  shows "\<exists>s'. findStep debug rt d s = Inr s'"
  using assms
  by (auto simp: findStep_def andThen_Inr getAttribute_Inr eligible_def deviceOk_def Let_def
         calcSMCountPerMultiProcessor_def SLANG_ASSERT_def last_infos
         split: if_splits option.splits)


lemma findStep_inv:
  assumes step: "findStep debug rt d s = Inr s1"
    and inv: "findInv rt seen s"
    and above: "\<forall>x\<in>seen. x < d"
    and nonneg: "0 \<le> d"
  shows "findInv rt (insert d seen) s1"
proof (cases "eligible rt d")
  case False
  with findStep_Inr [OF step] have "maxPerfDevice s1 = maxPerfDevice s" "maxComputePerf s1 = maxComputePerf s"
    by simp_all
  with inv False show ?thesis
    by (auto simp: findInv_def split: if_splits)
next
  case True
  note st = findStep_Inr [OF step]
  show ?thesis
  proof (cases "deviceScore rt d > maxComputePerf s")
    case gt: True
    with st True have eq: "maxPerfDevice s1 = d" "maxComputePerf s1 = deviceScore rt d"
      by simp_all
    have pos: "0 < deviceScore rt d"
      using gt by (cases "deviceScore rt d = 0") (simp_all add: word_gt_0)
    have "\<forall>x\<in>seen. eligible rt x \<longrightarrow> deviceScore rt x < deviceScore rt d"
      using inv gt pos by (auto simp: findInv_def split: if_splits)
    with eq True pos nonneg show ?thesis
      by (auto simp: findInv_def)
  next
    case le: False
    with st True have eq: "maxPerfDevice s1 = maxPerfDevice s" "maxComputePerf s1 = maxComputePerf s"
      by simp_all
    show ?thesis
    proof (cases "maxPerfDevice s < 0")
      case neg: True
      with inv have "maxComputePerf s = 0" by (simp add: findInv_def)
      with le have "deviceScore rt d = 0" by (simp add: word_gt_0)
      with inv neg eq show ?thesis by (auto simp: findInv_def)
    next
      case nn: False
      with inv have "maxPerfDevice s \<in> seen" by (simp add: findInv_def)
      with above have "maxPerfDevice s < d" by blast
      with inv nn eq le show ?thesis
        by (auto simp: findInv_def)
    qed
  qed
qed

lemma findLoop_inv:
  "findLoop debug rt ds s = Inr s' \<Longrightarrow> findInv rt seen s \<Longrightarrow> sorted_wrt (<) ds
     \<Longrightarrow> \<forall>x\<in>seen. \<forall>y\<in>set ds. x < y \<Longrightarrow> \<forall>y\<in>set ds. 0 \<le> y
     \<Longrightarrow> findInv rt (seen \<union> set ds) s'"
proof (induction ds arbitrary: s seen)
  case Nil
  then show ?case by simp
next
  case (Cons d ds)
  from Cons.prems(1) obtain s1 where s1: "findStep debug rt d s = Inr s1"
    and rest: "findLoop debug rt ds s1 = Inr s'"
    by (auto simp: andThen_Inr)
  have "findInv rt (insert d seen) s1"
    using s1 Cons.prems by (intro findStep_inv) auto
  then have "findInv rt (insert d seen \<union> set ds) s'"
    using rest Cons.prems by (intro Cons.IH) auto
  then show ?case by simp
qed

lemma findLoop_total:
  "\<forall>d\<in>set ds. deviceOk debug rt d \<Longrightarrow> \<exists>s'. findLoop debug rt ds s = Inr s'"
proof (induction ds arbitrary: s)
  case Nil
  then show ?case by simp
next
  case (Cons d ds)
  then obtain s1 where "findStep debug rt d s = Inr s1"
    using findStep_total [of debug rt d s] by auto
  with Cons show ?case by (simp add: andThen_def)
qed

lemma set_devices: "set (map int [0..<nat n]) = {d. 0 \<le> d \<and> d < n}"
proof (intro set_eqI iffI)
  fix x assume "x \<in> set (map int [0..<nat n])"
  then obtain k where "x = int k" "k < nat n" by auto
  then show "x \<in> {d. 0 \<le> d \<and> d < n}" by (simp add: zless_nat_eq_int_zless)
next
  fix x assume "x \<in> {d. 0 \<le> d \<and> d < n}"
  then have "nat x < nat n" "x = int (nat x)" by auto
  then have "x \<in> int ` {0..<nat n}" by (metis atLeastLessThan_iff imageI zero_le)
  then show "x \<in> set (map int [0..<nat n])" by simp
qed

lemma sorted_devices: "sorted_wrt (<) (map int [0..<k])"
  by (simp add: sorted_wrt_map sorted_wrt_iff_nth_less)

lemma findInit_inv: "findInv rt {} findInit"
  by (simp add: findInv_def findInit_def)

lemma findMax_inv:
  assumes "findMaxFlopsDeviceId debug rt = Inr d"
  shows "\<exists>s. findInv rt {x. 0 \<le> x \<and> x < snd (cudaGetDeviceCount rt)} s \<and> maxPerfDevice s = d \<and> 0 \<le> d"
proof -
  from assms obtain s where loop: "findLoop debug rt (map int [0..<nat (snd (cudaGetDeviceCount rt))]) findInit = Inr s"
    and d: "\<not> maxPerfDevice s < 0" "d = maxPerfDevice s"
    by (auto simp: findMaxFlopsDeviceId_def andThen_Inr split: prod.splits if_splits)
  have "findInv rt ({} \<union> set (map int [0..<nat (snd (cudaGetDeviceCount rt))])) s"
    using loop findInit_inv sorted_devices by (rule findLoop_inv) auto
  then have "findInv rt {x. 0 \<le> x \<and> x < snd (cudaGetDeviceCount rt)} s"
    by (simp only: set_devices Un_empty_left)
  with d show ?thesis by auto
qed


lemma findMax_total:
  assumes "fst (cudaGetDeviceCount rt) = 0"
    and "\<forall>d. 0 \<le> d \<and> d < snd (cudaGetDeviceCount rt) \<longrightarrow> deviceOk debug rt d"
  shows "\<exists>s. findLoop debug rt (map int [0..<nat (snd (cudaGetDeviceCount rt))]) findInit = Inr s
           \<and> findInv rt {x. 0 \<le> x \<and> x < snd (cudaGetDeviceCount rt)} s
           \<and> findMaxFlopsDeviceId debug rt
               = (if maxPerfDevice s < 0 then Inl SLANG_FAIL else Inr (maxPerfDevice s))"
proof -
  let ?ds = "map int [0..<nat (snd (cudaGetDeviceCount rt))]"
  have "\<forall>d\<in>set ?ds. deviceOk debug rt d"
    using assms(2) unfolding set_devices by simp
  then obtain s where loop: "findLoop debug rt ?ds findInit = Inr s"
    using findLoop_total by blast
  have "findInv rt ({} \<union> set ?ds) s"
    using loop findInit_inv sorted_devices by (rule findLoop_inv) auto
  then have inv: "findInv rt {x. 0 \<le> x \<and> x < snd (cudaGetDeviceCount rt)} s"
    by (simp only: set_devices Un_empty_left)
  obtain n where cnt: "cudaGetDeviceCount rt = (0, n)"
    using assms(1) by (cases "cudaGetDeviceCount rt") auto
  have "findMaxFlopsDeviceId debug rt
          = (if maxPerfDevice s < 0 then Inl SLANG_FAIL else Inr (maxPerfDevice s))"
    using loop
    by (simp add: findMaxFlopsDeviceId_def cnt andThen_def SLANG_CUDA_RETURN_ON_FAIL_def
          isError_def)
  with loop inv show ?thesis by blast
qed







subsection \<open>The capability probe\<close>

lemma andThen_Inl:
  "andThen r f = Inl e \<longleftrightarrow> r = Inl e \<or> (\<exists>x. r = Inr x \<and> f x = Inl e)"
  by (cases r) (simp_all add: andThen_def)

lemma RETURN_ON_FAIL_Inl:
  "SLANG_CUDA_RETURN_ON_FAIL debug r = Inl e \<longleftrightarrow>
     r \<noteq> 0 \<and> e = (if debug then AssertFailed else SLANG_FAIL)"
  by (auto simp: SLANG_CUDA_RETURN_ON_FAIL_def isError_def SLANG_ASSERT_def)

lemma getAttribute_release: "getAttribute False rt a d = Inl e \<Longrightarrow> e = SLANG_FAIL"
  by (auto simp: getAttribute_def andThen_Inl RETURN_ON_FAIL_Inl split: prod.splits)

lemma calcSM_release: "calcSMCountPerMultiProcessor False major minor \<noteq> Inl e"
  by (auto simp: calcSMCountPerMultiProcessor_def Let_def andThen_def SLANG_ASSERT_def
        split: option.splits)

lemma findStep_release: "findStep False rt d s = Inl e \<Longrightarrow> e = SLANG_FAIL"
  unfolding findStep_def
  by (auto simp: andThen_Inl Let_def calcSM_release dest: getAttribute_release split: if_splits)

lemma findLoop_release: "findLoop False rt ds s = Inl e \<Longrightarrow> e = SLANG_FAIL"
  by (induction ds arbitrary: s) (auto simp: andThen_Inl dest: findStep_release)

lemma findMax_release: "findMaxFlopsDeviceId False rt = Inl e \<Longrightarrow> e = SLANG_FAIL"
  by (auto simp: findMaxFlopsDeviceId_def andThen_Inl RETURN_ON_FAIL_Inl
        dest: findLoop_release split: prod.splits if_splits)

lemma findMax_no_eligible:
  assumes none: "\<forall>d. 0 \<le> d \<and> d < snd (cudaGetDeviceCount rt) \<longrightarrow> \<not> eligible rt d"
    and ok: "\<not> debug \<or> (fst (cudaGetDeviceCount rt) = 0
              \<and> (\<forall>d. 0 \<le> d \<and> d < snd (cudaGetDeviceCount rt) \<longrightarrow> deviceOk debug rt d))"
  shows "findMaxFlopsDeviceId debug rt = Inl SLANG_FAIL"
proof (cases "findMaxFlopsDeviceId debug rt")
  case (Inr d)
  from findMax_inv [OF Inr] none have False
    by (auto simp: findInv_def split: if_splits)
  then show ?thesis ..
next
  case (Inl e)
  show ?thesis
  proof (cases debug)
    case False
    with Inl findMax_release [of rt e] show ?thesis by simp
  next
    case True
    with ok findMax_total [of rt debug] Inl show ?thesis
      by (auto split: if_splits)
  qed
qed

lemma initCuda_result:
  assumes "\<not> debug \<or> cuInitOk drv st"
  shows "fst (initCuda debug drv st) = Inr () \<or> fst (initCuda debug drv st) = Inl SLANG_FAIL"
  using assms
  by (auto simp: initCuda_def cuInitOk_def Let_def SLANG_CUDA_RETURN_ON_FAIL_def isError_def
        SLANG_ASSERT_def split: option.splits)

lemma init_no_eligible:
  assumes "findMaxFlopsDeviceId debug rt = Inl SLANG_FAIL"
    and "\<not> debug \<or> cuInitOk drv st"
  shows "fst (ScopeCUDAContext_init debug rt drv flags st) = Inl SLANG_FAIL"
proof -
  obtain r st1 where i: "initCuda debug drv st = (r, st1)" by (cases "initCuda debug drv st")
  with initCuda_result [OF assms(2)] have "r = Inr () \<or> r = Inl SLANG_FAIL" by simp
  then show ?thesis
    using i assms(1) by (auto simp: ScopeCUDAContext_init_def seq_def lift_def)
qed

text \<open>
  C8, as stated, fails. With no device, the count query of \<open>rtNoDevice\<close> reports an
  error; in a debug build \<^verbatim>\<open>SLANG_CUDA_RETURN_ON_FAIL\<close> trips its assertion and
  \<open>canCreateDevice\<close> does not return.
\<close>

theorem canCreateDevice_counterexample:
  "snd (cudaGetDeviceCount rtNoDevice) = 0
   \<and> fst (canCreateDevice True rtNoDevice drvOk st0) = Inl AssertFailed"
  by code_simp

text \<open>
  C8, amended: when no eligible device exists (no devices, or every device is in the
  prohibited compute mode), \<open>canCreateDevice\<close> returns false, in a build without
  assertions always, and in a debug build when \<open>cuInit\<close>, the count query and the
  attribute queries report success.
\<close>

theorem canCreateDevice_no_eligible:
  assumes "\<forall>d. 0 \<le> d \<and> d < snd (cudaGetDeviceCount rt) \<longrightarrow> \<not> eligible rt d"
    and "\<not> debug \<or> (cuInitOk drv st \<and> fst (cudaGetDeviceCount rt) = 0
              \<and> (\<forall>d. 0 \<le> d \<and> d < snd (cudaGetDeviceCount rt) \<longrightarrow> deviceOk debug rt d))"
  shows "fst (canCreateDevice debug rt drv st) = Inr False"
proof -
  have f: "findMaxFlopsDeviceId debug rt = Inl SLANG_FAIL"
    using assms by (intro findMax_no_eligible) auto
  have c: "\<not> debug \<or> cuInitOk drv (st\<lparr>m_context := 0\<rparr>)"
    using assms(2) by (auto simp: cuInitOk_def split: option.splits)
  from init_no_eligible [OF f c, of 0] show ?thesis
    by (auto simp: canCreateDevice_def split: prod.splits sum.splits)
qed

theorem canCreateDevice_no_eligible_witness:
  "fst (canCreateDevice True rtProhibited drvOk st0) = Inr False
   \<and> fst (canCreateDevice False rtNoDevice drvOk st0) = Inr False"
proof -
  have n: "snd (cudaGetDeviceCount rtProhibited) = 2" "fst (cudaGetDeviceCount rtProhibited) = 0"
    by (simp_all add: rtProhibited_def)
  have e: "\<not> eligible rtProhibited 0" "\<not> eligible rtProhibited 1"
    "deviceOk True rtProhibited 0" "deviceOk True rtProhibited 1" "cuInitOk drvOk st0"
    by code_simp+
  have two: "\<And>d. 0 \<le> d \<and> d < snd (cudaGetDeviceCount rtProhibited) \<Longrightarrow> d = 0 \<or> d = 1"
    using n by auto
  have none: "\<forall>d. 0 \<le> d \<and> d < snd (cudaGetDeviceCount rtProhibited) \<longrightarrow> \<not> eligible rtProhibited d"
    using two e by blast
  have ok: "cuInitOk drvOk st0 \<and> fst (cudaGetDeviceCount rtProhibited) = 0
     \<and> (\<forall>d. 0 \<le> d \<and> d < snd (cudaGetDeviceCount rtProhibited) \<longrightarrow> deviceOk True rtProhibited d)"
    using two e n by blast
  have a: "fst (canCreateDevice True rtProhibited drvOk st0) = Inr False"
    using canCreateDevice_no_eligible [of rtProhibited True drvOk st0] none ok by blast
  have none': "\<forall>d. 0 \<le> d \<and> d < snd (cudaGetDeviceCount rtNoDevice) \<longrightarrow> \<not> eligible rtNoDevice d"
  proof -
    have "snd (cudaGetDeviceCount rtNoDevice) = 0" by (simp add: rtNoDevice_def)
    then show ?thesis by auto
  qed
  have b: "fst (canCreateDevice False rtNoDevice drvOk st0) = Inr False"
    using canCreateDevice_no_eligible [of rtNoDevice False drvOk st0] none' by blast
  from a b show ?thesis ..
qed

section \<open>The pipeline\<close>

subsection \<open>Sequencing\<close>

lemma seqE:
  assumes "seq m f st = (r, st')"
  obtains (stop) e where "m st = (Inl e, st')" "r = Inl e"
        | (go) x s1 where "m st = (Inr x, s1)" "f x s1 = (r, st')"
  using assms by (auto simp: seq_def split: prod.splits sum.splits)

lemma seq_Inr:
  "seq m f st = (Inr y, st') \<longleftrightarrow> (\<exists>x s1. m st = (Inr x, s1) \<and> f x s1 = (Inr y, st'))"
  by (auto simp: seq_def split: prod.splits sum.splits)

lemma followsD: "follows R m \<Longrightarrow> m st = (r, st') \<Longrightarrow> R st st'"
  by (auto simp: follows_def)

lemma follows_seq:
  assumes trans: "\<And>a b c. R a b \<Longrightarrow> R b c \<Longrightarrow> R a c"
    and m: "follows R m" and f: "\<And>x. follows R (f x)"
  shows "follows R (seq m f)"
  unfolding follows_def
proof (intro allI impI)
  fix st r st' assume "seq m f st = (r, st')"
  then show "R st st'"
  proof (cases rule: seqE)
    case (stop e)
    with m show ?thesis by (auto dest: followsD)
  next
    case (go x s1)
    with m f [of x] trans show ?thesis by (blast dest: followsD)
  qed
qed

lemma follows_ret: "(\<And>a. R a a) \<Longrightarrow> follows R (ret x)"
  by (simp add: follows_def ret_def)

lemma follows_throw: "(\<And>a. R a a) \<Longrightarrow> follows R (throw e)"
  by (simp add: follows_def throw_def)

lemma follows_lift: "(\<And>a. R a a) \<Longrightarrow> follows R (lift r)"
  by (simp add: follows_def lift_def)

lemma follows_if: "follows R a \<Longrightarrow> follows R b \<Longrightarrow> follows R (if c then a else b)"
  by simp

subsection \<open>The two relations\<close>

lemma emitsOnly_refl: "emitsOnly P a a"
  by (simp add: emitsOnly_def)

lemma emitsOnly_trans: "emitsOnly P a b \<Longrightarrow> emitsOnly P b c \<Longrightarrow> emitsOnly P a c"
  by (fastforce simp: emitsOnly_def)

lemma emitsOnly_mono: "emitsOnly P a b \<Longrightarrow> (\<And>e. P e \<Longrightarrow> Q e) \<Longrightarrow> emitsOnly Q a b"
  by (auto simp: emitsOnly_def)

lemma follows_mono: "follows (emitsOnly P) m \<Longrightarrow> (\<And>e. P e \<Longrightarrow> Q e) \<Longrightarrow> follows (emitsOnly Q) m"
  unfolding follows_def by (blast intro: emitsOnly_mono)

lemma sameTargets_refl: "sameTargets a a"
  by (simp add: sameTargets_def)

lemma sameTargets_trans: "sameTargets a b \<Longrightarrow> sameTargets b c \<Longrightarrow> sameTargets a c"
  by (simp add: sameTargets_def)

lemma emits_seq:
  "follows (emitsOnly P) m \<Longrightarrow> (\<And>x. follows (emitsOnly P) (f x))
     \<Longrightarrow> follows (emitsOnly P) (seq m f)"
  by (rule follows_seq [where R = "emitsOnly P"]) (erule emitsOnly_trans, assumption+)

lemma emits_ret: "follows (emitsOnly P) (ret x)"
  by (rule follows_ret) (rule emitsOnly_refl)

lemma emits_throw: "follows (emitsOnly P) (throw e)"
  by (rule follows_throw) (rule emitsOnly_refl)

lemma emits_lift: "follows (emitsOnly P) (lift r)"
  by (rule follows_lift) (rule emitsOnly_refl)

lemma same_seq:
  "follows sameTargets m \<Longrightarrow> (\<And>x. follows sameTargets (f x)) \<Longrightarrow> follows sameTargets (seq m f)"
  by (rule follows_seq [where R = sameTargets]) (erule sameTargets_trans, assumption+)

lemma same_ret: "follows sameTargets (ret x)"
  by (rule follows_ret) (rule sameTargets_refl)

lemma same_throw: "follows sameTargets (throw e)"
  by (rule follows_throw) (rule sameTargets_refl)

lemma same_lift: "follows sameTargets (lift r)"
  by (rule follows_lift) (rule sameTargets_refl)

lemma follows_case_prod:
  "(\<And>a b. follows R (f a b)) \<Longrightarrow> follows R (case x of (a, b) \<Rightarrow> f a b)"
  by (cases x) simp

lemma emits_doCall: "(\<And>rep. P (c, rep)) \<Longrightarrow> follows (emitsOnly P) (doCall drv c)"
  by (auto simp: follows_def emitsOnly_def doCall_def Let_def)

lemma emits_checked: "(\<And>rep. P (c, rep)) \<Longrightarrow> follows (emitsOnly P) (checked debug drv c)"
  unfolding checked_def
  by (intro emits_seq emits_doCall follows_case_prod emits_lift emits_ret)

lemma same_doCall: "follows sameTargets (doCall drv c)"
  by (auto simp: follows_def sameTargets_def doCall_def Let_def)

lemma same_checked: "follows sameTargets (checked debug drv c)"
  unfolding checked_def
  by (intro same_seq same_doCall follows_case_prod same_lift same_ret)

subsection \<open>Stopping at the first failure\<close>

lemma stopsD: "stopsAtFailure debug m \<Longrightarrow> m st = (r, st') \<Longrightarrow> haltedAt debug st r st'"
  unfolding stopsAtFailure_def by (elim allE impE) assumption+

lemma stops_seq:
  assumes m: "stopsAtFailure debug m" and f: "\<And>x. stopsAtFailure debug (f x)"
  shows "stopsAtFailure debug (seq m f)"
  unfolding stopsAtFailure_def
proof (intro allI impI)
  fix st r st' assume "seq m f st = (r, st')"
  then show "haltedAt debug st r st'"
  proof (cases rule: seqE)
    case (stop e)
    with stopsD [OF m stop(1)] show ?thesis
      by (simp add: haltedAt_def reportsFailure_def)
  next
    case (go x s1)
    from stopsD [OF m go(1)] obtain evs1 where e1: "trace s1 = trace st @ evs1"
      "\<forall>e\<in>set evs1. \<not> stageFailure e"
      unfolding haltedAt_def reportsFailure_def by auto
    from stopsD [OF f go(2)] obtain evs2 where e2: "trace st' = trace s1 @ evs2"
      "\<forall>e\<in>set (butlast evs2). \<not> stageFailure e"
      "(\<exists>e\<in>set evs2. stageFailure e) \<longrightarrow> reportsFailure debug r"
      unfolding haltedAt_def by blast
    have "\<forall>e\<in>set (butlast (evs1 @ evs2)). \<not> stageFailure e"
      using e1(2) e2(2) by (auto simp: butlast_append dest: in_set_butlastD)
    with e1 e2 show ?thesis
      unfolding haltedAt_def by (intro exI [of _ "evs1 @ evs2"]) auto
  qed
qed

lemma stops_quiet:
  assumes "follows (emitsOnly (\<lambda>e. \<not> stageFailure e)) m"
  shows "stopsAtFailure debug m"
  using assms unfolding stopsAtFailure_def haltedAt_def follows_def emitsOnly_def
  by (meson in_set_butlastD)

lemma stops_ret: "stopsAtFailure debug (ret x)"
  by (intro stops_quiet emits_ret)

lemma stops_throw: "stopsAtFailure debug (throw e)"
  by (intro stops_quiet emits_throw)

lemma stops_lift: "stopsAtFailure debug (lift r)"
  by (intro stops_quiet emits_lift)

lemma stops_checked: "stopsAtFailure debug (checked debug drv c)"
  unfolding stopsAtFailure_def
proof (intro allI impI)
  fix st r st' assume a: "checked debug drv c st = (r, st')"
  let ?rep = "drv (trace st) c"
  from a have t: "trace st' = trace st @ [(c, ?rep)]"
    and ko: "isError (fst ?rep) \<longrightarrow> reportsFailure debug r"
    by (auto simp: checked_def seq_def doCall_def Let_def lift_def ret_def reportsFailure_def
          SLANG_CUDA_RETURN_ON_FAIL_def SLANG_ASSERT_def split: prod.splits sum.splits if_splits)
  have "stageFailure (c, ?rep) \<Longrightarrow> isError (fst ?rep)"
    by (cases c; cases ?rep) (auto simp: isError_def)
  with t ko show "haltedAt debug st r st'"
    unfolding haltedAt_def by (intro exI [of _ "[(c, ?rep)]"]) auto
qed

subsection \<open>The stages one by one\<close>

lemma follows_case_option:
  "follows R a \<Longrightarrow> (\<And>y. follows R (b y)) \<Longrightarrow> follows R (case x of None \<Rightarrow> a | Some y \<Rightarrow> b y)"
  by (cases x) simp_all

lemma stops_case_option:
  "stopsAtFailure debug a \<Longrightarrow> (\<And>y. stopsAtFailure debug (b y))
     \<Longrightarrow> stopsAtFailure debug (case x of None \<Rightarrow> a | Some y \<Rightarrow> b y)"
  by (cases x) simp_all

lemma quiet_simps [simp]:
  "quiet (cuModuleGetFunction m nm, rep)" "quiet (addBindSetValues, rep)"
  "quiet (cudaMemcpy d s n cudaMemcpyHostToDevice, rep)"
  "quiet (cuInit f, rep)" "quiet (cudaSetDevice i, rep)" "quiet (cuCtxCreate f i, rep)"
  "quiet (cuCtxDestroy c, rep)" "quiet (cuModuleLoadData b, rep)" "quiet (cuModuleUnload m, rep)"
  "quiet (cuFuncGetAttribute a k, rep)" "quiet (cudaDeviceSynchronize, rep)"
  "quiet (cudaStreamSynchronize s, rep)" "quiet (cudaStreamDestroy s, rep)"
  by (simp_all add: quiet_def)

lemma resolveEntryPoint_emits: "follows (emitsOnly quiet) (resolveEntryPoint debug drv module inp)"
  unfolding resolveEntryPoint_def
  by (intro emits_seq emits_lift follows_case_option emits_throw emits_ret emits_checked) simp

lemma resolveEntryPoint_same: "follows sameTargets (resolveEntryPoint debug drv module inp)"
  unfolding resolveEntryPoint_def
  by (intro same_seq same_lift follows_case_option same_throw same_ret same_checked)

lemma resolveEntryPoint_stops: "stopsAtFailure debug (resolveEntryPoint debug drv module inp)"
  unfolding resolveEntryPoint_def
  by (intro stops_seq stops_lift stops_case_option stops_throw stops_ret stops_checked)

lemma resolveEntryPoint_Inr:
  "resolveEntryPoint debug drv module inp st = (Inr (entryPoint, kernelFunction), st')
     \<Longrightarrow> getEntryPointByIndex (entryPoints inp) 0 = Some entryPoint"
  by (auto simp: resolveEntryPoint_def seq_Inr ret_def throw_def split: option.splits)

lemma addValues_emits: "follows (emitsOnly quiet) (addValues drv)"
  by (auto simp: follows_def emitsOnly_def addValues_def seq_def doCall_def Let_def throw_def ret_def
        split: prod.splits sum.splits if_splits)

lemma addValues_same: "follows sameTargets (addValues drv)"
  by (auto simp: follows_def sameTargets_def addValues_def seq_def doCall_def Let_def throw_def
        ret_def split: prod.splits sum.splits if_splits)

lemma addValues_stops: "stopsAtFailure debug (addValues drv)"
  unfolding stopsAtFailure_def
proof (intro allI impI)
  fix st r st' assume a: "addValues drv st = (r, st')"
  let ?rep = "drv (trace st) addBindSetValues"
  from a have t: "trace st' = trace st @ [(addBindSetValues, ?rep)]"
    and ko: "fst ?rep < 0 \<longrightarrow> reportsFailure debug r"
    by (auto simp: addValues_def seq_def doCall_def Let_def throw_def ret_def reportsFailure_def
          split: prod.splits sum.splits if_splits)
  have "stageFailure (addBindSetValues, ?rep) \<Longrightarrow> fst ?rep < 0"
    by (cases ?rep) auto
  with t ko show "haltedAt debug st r st'"
    unfolding haltedAt_def by (intro exI [of _ "[(addBindSetValues, ?rep)]"]) auto
qed

lemma setBinding_silent:
  "setBinding b st = (r, st') \<Longrightarrow> trace st' = trace st \<and> m_target st' = m_target st"
  by (auto simp: setBinding_def writeUniform_def Let_def
        split: prod.splits Kind.splits SlangResourceShape.splits if_splits)

lemma setBindings_silent:
  "setBindings bs st = (r, st') \<Longrightarrow> trace st' = trace st \<and> m_target st' = m_target st"
proof (induction bs arbitrary: st)
  case Nil
  then show ?case by (simp add: ret_def)
next
  case (Cons b bs)
  from Cons.prems have "seq (setBinding b) (\<lambda>_. setBindings bs) st = (r, st')" by simp
  then show ?case
  proof (cases rule: seqE)
    case (stop e)
    then show ?thesis using setBinding_silent by blast
  next
    case (go x s1)
    with setBinding_silent [OF go(1)] Cons.IH [OF go(2)] show ?thesis by simp
  qed
qed

lemma setBindings_emits: "follows (emitsOnly P) (setBindings bs)"
  by (auto simp: follows_def emitsOnly_def dest: setBindings_silent)

lemma setBindings_same: "follows sameTargets (setBindings bs)"
  by (auto simp: follows_def sameTargets_def dest: setBindings_silent)

lemma setBindings_stops: "stopsAtFailure debug (setBindings bs)"
  by (intro stops_quiet setBindings_emits)

lemma stops_case_prod:
  "(\<And>a b. stopsAtFailure debug (f a b)) \<Longrightarrow> stopsAtFailure debug (case x of (a, b) \<Rightarrow> f a b)"
  by (cases x) simp

lemma stops_if: "stopsAtFailure debug a \<Longrightarrow> stopsAtFailure debug b \<Longrightarrow> stopsAtFailure debug (if c then a else b)"
  by simp

text \<open>The upload.\<close>

lemma uploadValue_emits: "follows (emitsOnly quiet) (uploadValue debug drv inp v)"
proof -
  have c: "follows (emitsOnly quiet)
             (seq (checked debug drv (cudaMemcpy a b n cudaMemcpyHostToDevice)) (\<lambda>_. ret ()))"
    for a b n
    by (intro emits_seq emits_checked emits_ret) simp
  show ?thesis
    unfolding follows_def uploadValue_def Let_def
    by (auto split: if_splits dest: followsD [OF c] simp: emitsOnly_refl)
qed

lemma uploadValue_same: "follows sameTargets (uploadValue debug drv inp v)"
proof -
  have c: "follows sameTargets (seq (checked debug drv c) (\<lambda>_. ret ()))" for c
    by (intro same_seq same_checked same_ret)
  show ?thesis
    unfolding follows_def uploadValue_def Let_def
    by (auto split: if_splits dest: followsD [OF c] simp: sameTargets_refl)
qed

lemma uploadValue_stops: "stopsAtFailure debug (uploadValue debug drv inp v)"
proof -
  have c: "stopsAtFailure debug (seq (checked debug drv c) (\<lambda>_. ret ()))" for c
    by (intro stops_seq stops_checked stops_ret)
  have r: "stopsAtFailure debug (ret ())" by (rule stops_ret)
  show ?thesis
    unfolding stopsAtFailure_def
  proof (intro allI impI)
    fix st r st' assume a: "uploadValue debug drv inp v st = (r, st')"
    show "haltedAt debug st r st'"
    proof (cases "m_data (valueAt inp v) \<noteq> 0 \<and> getCUDAData st (Some v) \<noteq> 0")
      case True
      with a show ?thesis
        by (intro stopsD [OF c]) (simp add: uploadValue_def Let_def)
    next
      case False
      with a have "ret () st = (r, st')" by (auto simp: uploadValue_def Let_def ret_def)
      then show ?thesis by (rule stopsD [OF stops_ret])
    qed
  qed
qed

lemma upload_emits: "follows (emitsOnly quiet) (upload debug drv inp vs)"
  by (induction vs) (auto intro!: emits_ret emits_seq uploadValue_emits)

lemma upload_same: "follows sameTargets (upload debug drv inp vs)"
  by (induction vs) (auto intro!: same_ret same_seq uploadValue_same)

lemma upload_stops: "stopsAtFailure debug (upload debug drv inp vs)"
  by (induction vs) (auto intro!: stops_ret stops_seq uploadValue_stops)

text \<open>The launch.\<close>

lemma launchKernel_unfold:
  "launchKernel debug drv inp k ep st =
     seq (checked debug drv
            (cuLaunchKernel k (1, 1, 1) (blockOf ep) 0 0
               [getCUDAData st (getEntryPointValue inp), getCUDAData st (getRootValue inp)]))
       (\<lambda>_. seq (checked debug drv cudaDeviceSynchronize) (\<lambda>_. ret ())) st"
  by (simp add: launchKernel_def blockOf_def stream_def Let_def split: prod.splits)

lemma launchKernel_emits: "follows (emitsOnly (launcherEvent ep)) (launchKernel debug drv inp k ep)"
proof -
  have c: "follows (emitsOnly (launcherEvent ep))
             (seq (checked debug drv (cuLaunchKernel k (1, 1, 1) (blockOf ep) 0 0 [a, b]))
                (\<lambda>_. seq (checked debug drv cudaDeviceSynchronize) (\<lambda>_. ret ())))"
    for a b
    by (intro emits_seq emits_checked emits_ret) (simp_all add: launcherEvent_def)
  show ?thesis
    unfolding follows_def launchKernel_unfold
    by (auto dest: followsD [OF c])
qed

lemma launchKernel_same: "follows sameTargets (launchKernel debug drv inp k ep)"
proof -
  have c: "follows sameTargets (seq (checked debug drv c)
             (\<lambda>_. seq (checked debug drv cudaDeviceSynchronize) (\<lambda>_. ret ())))" for c
    by (intro same_seq same_checked same_ret)
  show ?thesis
    unfolding follows_def launchKernel_unfold
    by (auto dest: followsD [OF c])
qed

lemma launchKernel_stops: "stopsAtFailure debug (launchKernel debug drv inp k ep)"
proof -
  have c: "stopsAtFailure debug (seq (checked debug drv c)
             (\<lambda>_. seq (checked debug drv cudaDeviceSynchronize) (\<lambda>_. ret ())))" for c
    by (intro stops_seq stops_checked stops_ret)
  show ?thesis
    unfolding stopsAtFailure_def launchKernel_unfold
    by (intro allI impI) (erule stopsD [OF c])
qed

lemma launch_emits: "follows (emitsOnly (launcherEvent ep)) (launch debug drv inp k ep)"
  unfolding launch_def
  by (intro emits_seq emits_checked launchKernel_emits) (simp_all add: launcherEvent_def)

lemma launch_same: "follows sameTargets (launch debug drv inp k ep)"
  unfolding launch_def by (intro same_seq same_checked launchKernel_same)

lemma launch_stops: "stopsAtFailure debug (launch debug drv inp k ep)"
  unfolding launch_def by (intro stops_seq stops_checked launchKernel_stops)

text \<open>The copy back.\<close>

lemma copyBack_emits: "follows (emitsOnly copyBackEvent) (copyBack debug drv inp i)"
proof -
  have c: "follows (emitsOnly copyBackEvent)
             (seq (checked debug drv (cudaMemcpy a b n cudaMemcpyDeviceToHost)) (\<lambda>_. ret ()))"
    for a b n
    by (intro emits_seq emits_checked emits_ret) (simp add: copyBackEvent_def)
  show ?thesis
    unfolding follows_def copyBack_def Let_def
    by (auto split: if_splits option.splits dest: followsD [OF c] simp: emitsOnly_refl)
qed

lemma copyBack_same: "follows sameTargets (copyBack debug drv inp i)"
proof -
  have c: "follows sameTargets (seq (checked debug drv c) (\<lambda>_. ret ()))" for c
    by (intro same_seq same_checked same_ret)
  show ?thesis
    unfolding follows_def copyBack_def Let_def
    by (auto split: if_splits option.splits dest: followsD [OF c] simp: sameTargets_refl)
qed

lemma copyBack_cases:
  "copyBack debug drv inp i st =
     (if i < length (m_buffers inp)
      then (case copyBackCall inp st i of
              None \<Rightarrow> ret () st
            | Some c \<Rightarrow> seq (checked debug drv c) (\<lambda>_. ret ()) st)
      else throw IndexOutOfRange st)"
  by (simp add: copyBack_def copyBackCall_def Let_def ret_def throw_def split: option.splits)

lemma copyBack_stops: "stopsAtFailure debug (copyBack debug drv inp i)"
proof -
  have c: "stopsAtFailure debug (seq (checked debug drv c) (\<lambda>_. ret ()))" for c
    by (intro stops_seq stops_checked stops_ret)
  show ?thesis
    unfolding stopsAtFailure_def copyBack_cases
    by (intro allI impI)
       (auto split: if_splits option.splits
          dest: stopsD [OF c] stopsD [OF stops_ret] stopsD [OF stops_throw])
qed

lemma download_emits: "follows (emitsOnly copyBackEvent) (download debug drv inp is)"
  by (induction "is") (auto intro!: emits_ret emits_seq copyBack_emits)

lemma download_same: "follows sameTargets (download debug drv inp is)"
  by (induction "is") (auto intro!: same_ret same_seq copyBack_same)

lemma download_stops: "stopsAtFailure debug (download debug drv inp is)"
  by (induction "is") (auto intro!: stops_ret stops_seq copyBack_stops)

lemma checked_Inr:
  "checked debug drv c st = (Inr out, st') \<Longrightarrow>
     st' = st\<lparr>trace := trace st @ [(c, (0, out))]\<rparr> \<and> drv (trace st) c = (0, out)"
  by (auto simp: checked_def seq_def doCall_def Let_def lift_def ret_def
        SLANG_CUDA_RETURN_ON_FAIL_def isError_def split: prod.splits sum.splits if_splits)




text \<open>The release.\<close>

lemma destroyTarget_effect:
  "destroyTarget debug drv t st = (r, st') \<Longrightarrow>
     m_target st' = m_target st
   \<and> (\<exists>evs. trace st' = trace st @ evs \<and> (\<forall>e\<in>set evs. isFree e) \<and> (t = None \<longrightarrow> evs = []))"
  by (auto simp: destroyTarget_def seq_def doCall_def Let_def lift_def ret_def
        split: option.splits target.splits if_splits prod.splits sum.splits)

lemma assignTarget_effect:
  assumes "assignTarget debug drv v t st = (r, st')"
  shows "m_target st' = (m_target st)(v := t)
       \<and> (\<exists>evs. trace st' = trace st @ evs \<and> (\<forall>e\<in>set evs. isFree e)
             \<and> (m_target st v = None \<longrightarrow> evs = []))"
  using assms destroyTarget_effect [of debug drv "m_target st v" "st\<lparr>m_target := (m_target st)(v := t)\<rparr>" r st']
  by (simp add: assignTarget_def Let_def)

lemma releaseTargets_emits: "follows (emitsOnly isFree) (releaseTargets debug drv vs)"
proof (induction vs)
  case Nil
  show ?case by (simp add: emits_ret)
next
  case (Cons v vs)
  have "follows (emitsOnly isFree) (assignTarget debug drv v None)"
    unfolding follows_def emitsOnly_def using assignTarget_effect by blast
  with Cons show ?case by (auto intro!: emits_seq)
qed

lemma release_trace:
  assumes "bindSet_releaseValueTargets debug drv inp st = (r, st')"
  shows "\<exists>fs. trace st' = trace st @ (releaseValueTargets, (0, 0)) # fs \<and> (\<forall>e\<in>set fs. isFree e)"
proof -
  let ?s1 = "st\<lparr>trace := trace st @ [(releaseValueTargets, (0, 0))]\<rparr>"
  from assms have "releaseTargets debug drv (getValues inp) ?s1 = (r, st')"
    by (simp add: bindSet_releaseValueTargets_def seq_def mark_def)
  from followsD [OF releaseTargets_emits this] show ?thesis
    by (auto simp: emitsOnly_def)
qed

text \<open>The creation of the resources.\<close>

lemma allocateTarget_effect:
  assumes "allocateTarget debug drv inp v st = (r, st')"
  shows "(\<forall>w. w \<noteq> v \<longrightarrow> m_target st' w = m_target st w)
       \<and> (\<exists>evs. trace st' = trace st @ evs
             \<and> (\<forall>e\<in>set evs. isMalloc e \<or> isFree e)
             \<and> (m_target st v = None \<longrightarrow> (\<forall>e\<in>set evs. isMalloc e))
             \<and> (r = Inr () \<longrightarrow>
                  (\<exists>p. m_target st' v = Some (CUDAResource p)
                     \<and> (cudaMalloc (m_sizeInBytes (valueAt inp v)), (0, p)) \<in> set evs)))"
  using assms unfolding allocateTarget_def
proof (cases rule: seqE)
  case (stop e)
  let ?c = "cudaMalloc (m_sizeInBytes (valueAt inp v))"
  from stop(1) have "trace st' = trace st @ [(?c, drv (trace st) ?c)]" "m_target st' = m_target st"
    by (auto simp: checked_def seq_def doCall_def Let_def lift_def ret_def
          split: prod.splits sum.splits)
  with stop(2) show ?thesis by auto
next
  case (go p s1)
  from checked_Inr [OF go(1)] have s1: "trace s1 = trace st @ [(cudaMalloc (m_sizeInBytes (valueAt inp v)), (0, p))]"
    "m_target s1 = m_target st" by simp_all
  from assignTarget_effect [OF go(2)] obtain evs where
    a: "m_target st' = (m_target s1)(v := Some (CUDAResource p))"
    "trace st' = trace s1 @ evs" "\<forall>e\<in>set evs. isFree e" "m_target s1 v = None \<longrightarrow> evs = []"
    by (elim conjE exE)
  with s1 show ?thesis
    by (intro conjI exI [of _ "(cudaMalloc (m_sizeInBytes (valueAt inp v)), (0, p)) # evs"]) auto
qed

lemma createResource_cases:
  "createResource debug drv inp v =
     (if buffered (valueAt inp v) then allocateTarget debug drv inp v
      else case m_type (valueAt inp v) of
             None \<Rightarrow> ret ()
           | Some layout \<Rightarrow>
               if getKind layout = Resource \<and> getBaseShape layout = SLANG_TEXTURE_2D
               then lift (SLANG_ASSERT debug (m_userIndex (valueAt inp v) \<ge> 0))
               else ret ())"
proof (cases "m_type (valueAt inp v)")
  case None
  then show ?thesis by (simp add: createResource_def buffered_def)
next
  case (Some layout)
  show ?thesis
  proof (cases "getKind layout")
    case Resource
    with Some show ?thesis
      by (cases "getBaseShape layout") (simp_all add: createResource_def buffered_def)
  qed (use Some in \<open>simp_all add: createResource_def buffered_def\<close>)
qed

lemma createResource_effect:
  assumes "createResource debug drv inp v st = (r, st')"
  shows "(\<forall>w. w \<noteq> v \<longrightarrow> m_target st' w = m_target st w)
       \<and> (\<exists>evs. trace st' = trace st @ evs
             \<and> (\<forall>e\<in>set evs. isMalloc e \<or> isFree e)
             \<and> (m_target st v = None \<longrightarrow> (\<forall>e\<in>set evs. isMalloc e))
             \<and> (r = Inr () \<and> buffered (valueAt inp v) \<longrightarrow>
                  (\<exists>p. m_target st' v = Some (CUDAResource p)
                     \<and> (cudaMalloc (m_sizeInBytes (valueAt inp v)), (0, p)) \<in> set evs)))"
proof (cases "buffered (valueAt inp v)")
  case True
  with assms have "allocateTarget debug drv inp v st = (r, st')"
    by (simp add: createResource_cases)
  from allocateTarget_effect [OF this] obtain evs where
    o: "\<forall>w. w \<noteq> v \<longrightarrow> m_target st' w = m_target st w"
    and e: "trace st' = trace st @ evs" "\<forall>e\<in>set evs. isMalloc e \<or> isFree e"
      "m_target st v = None \<longrightarrow> (\<forall>e\<in>set evs. isMalloc e)"
      "r = Inr () \<longrightarrow> (\<exists>p. m_target st' v = Some (CUDAResource p)
          \<and> (cudaMalloc (m_sizeInBytes (valueAt inp v)), (0, p)) \<in> set evs)"
    by (elim conjE exE)
  show ?thesis
  proof (intro conjI exI [of _ evs])
    show "r = Inr () \<and> buffered (valueAt inp v) \<longrightarrow>
        (\<exists>p. m_target st' v = Some (CUDAResource p)
           \<and> (cudaMalloc (m_sizeInBytes (valueAt inp v)), (0, p)) \<in> set evs)"
      using e(4) by simp
  qed (use o e in simp_all)
next
  case False
  with assms have "trace st' = trace st \<and> m_target st' = m_target st"
    by (auto simp: createResource_cases ret_def lift_def split: option.splits if_splits)
  with False show ?thesis by simp
qed

lemma assignTarget_stops: "stopsAtFailure debug (assignTarget debug drv v t)"
proof (rule stops_quiet)
  show "follows (emitsOnly (\<lambda>e. \<not> stageFailure e)) (assignTarget debug drv v t)"
    unfolding follows_def emitsOnly_def
  proof (intro allI impI)
    fix st r st' assume "assignTarget debug drv v t st = (r, st')"
    from assignTarget_effect [OF this] obtain evs where
      "trace st' = trace st @ evs" "\<forall>e\<in>set evs. isFree e" by (elim conjE exE)
    moreover have "isFree e \<Longrightarrow> \<not> stageFailure e" for e
      by (cases e rule: isFree.cases) auto
    ultimately show "\<exists>evs. trace st' = trace st @ evs \<and> (\<forall>e\<in>set evs. \<not> stageFailure e)"
      by blast
  qed
qed

lemma createResource_stops: "stopsAtFailure debug (createResource debug drv inp v)"
proof -
  have a: "stopsAtFailure debug (allocateTarget debug drv inp v)"
    unfolding allocateTarget_def by (intro stops_seq stops_checked assignTarget_stops)
  show ?thesis
    unfolding createResource_cases
    by (intro stops_if stops_case_option a stops_ret stops_lift)
qed

lemma createResources_stops: "stopsAtFailure debug (createResources debug drv inp vs)"
  by (induction vs) (auto intro!: stops_ret stops_seq createResource_stops)

lemma createResources_emits:
  "follows (emitsOnly (\<lambda>e. isMalloc e \<or> isFree e)) (createResources debug drv inp vs)"
proof (induction vs)
  case Nil
  show ?case by (simp add: emits_ret)
next
  case (Cons v vs)
  have "follows (emitsOnly (\<lambda>e. isMalloc e \<or> isFree e)) (createResource debug drv inp v)"
    unfolding follows_def emitsOnly_def using createResource_effect by blast
  with Cons show ?case by (auto intro!: emits_seq)
qed

lemma createResources_others:
  "createResources debug drv inp vs st = (r, st') \<Longrightarrow> w \<notin> set vs
     \<Longrightarrow> m_target st' w = m_target st w"
proof (induction vs arbitrary: st)
  case Nil
  then show ?case by (simp add: ret_def)
next
  case (Cons v vs)
  from Cons.prems(1) have "seq (createResource debug drv inp v)
      (\<lambda>_. createResources debug drv inp vs) st = (r, st')" by simp
  then show ?case
  proof (cases rule: seqE)
    case (stop e)
    with createResource_effect [OF stop(1)] Cons.prems(2) show ?thesis by simp
  next
    case (go x s1)
    with createResource_effect [OF go(1)] Cons.IH [OF go(2)] Cons.prems(2) show ?thesis by simp
  qed
qed

lemma createResources_fresh:
  "createResources debug drv inp vs st = (r, st') \<Longrightarrow> distinct vs
     \<Longrightarrow> \<forall>v\<in>set vs. m_target st v = None \<Longrightarrow> emitsOnly isMalloc st st'"
proof (induction vs arbitrary: st)
  case Nil
  then show ?case by (simp add: ret_def emitsOnly_refl)
next
  case (Cons v vs)
  from Cons.prems(1) have "seq (createResource debug drv inp v)
      (\<lambda>_. createResources debug drv inp vs) st = (r, st')" by simp
  then show ?case
  proof (cases rule: seqE)
    case (stop e)
    with createResource_effect [OF stop(1)] Cons.prems(3) show ?thesis
      by (auto simp: emitsOnly_def)
  next
    case (go x s1)
    from createResource_effect [OF go(1)] Cons.prems(3)
    have one: "emitsOnly isMalloc st s1" and same: "\<forall>w. w \<noteq> v \<longrightarrow> m_target s1 w = m_target st w"
      by (auto simp: emitsOnly_def)
    from same Cons.prems(2,3) have "\<forall>w\<in>set vs. m_target s1 w = None" by auto
    with Cons.IH [OF go(2)] Cons.prems(2) have "emitsOnly isMalloc s1 st'" by simp
    with one show ?thesis by (rule emitsOnly_trans)
  qed
qed




text \<open>Unfolding a run on a concrete input.\<close>

lemmas run_defs =
  execute_def executeBody_def ScopeCUDAContext_init_def ScopeCUDAContext_dtor_def initCuda_def
  destroyContext_def createContext_def
  compute_def stages_def resolveEntryPoint_def addValues_def roundTrip_def
  createResource_cases allocateTarget_def assignTarget_def destroyTarget_def
  setBinding_def writeUniform_def uploadValue_def launch_def launchKernel_def
  copyBack_def bindSet_releaseValueTargets_def getEntryPointByIndex_def buffered_def
  seq_def ret_def throw_def lift_def doCall_def checked_def mark_def stream_def
  SLANG_CUDA_RETURN_ON_FAIL_def SLANG_CUDA_ASSERT_ON_FAIL_def SLANG_ASSERT_def isError_def
  Let_def

lemmas input_defs =
  inpTiny_def inpTexture_def inpTwoEntryPoints_def structuredBuffer_def constantBuffer_def
  texture2D_def
  drvOk_def drvFailSync_def drvFailUnload_def st0_def

lemma rtTie_selected: "findMaxFlopsDeviceId debug rtTie = Inr 2"
  by (cases debug) (simp_all, code_simp+)

subsection \<open>The allocation pass\<close>







subsection \<open>The launch\<close>

lemma getCUDAData_cong: "m_target s = m_target t \<Longrightarrow> getCUDAData s v = getCUDAData t v"
  by (cases v) simp_all

lemma launchedWith_cong:
  "m_target s = m_target t \<Longrightarrow> launchedWith s inp ep e = launchedWith t inp ep e"
proof -
  assume same: "m_target s = m_target t"
  obtain c rep where e: "e = (c, rep)" by (cases e)
  show ?thesis
    unfolding e by (cases c) (simp_all add: getCUDAData_cong [OF same])
qed

lemma launchedWith_other: "\<not> isLaunch e \<Longrightarrow> launchedWith st inp ep e"
  by (cases e rule: isLaunch.cases) simp_all

lemma launchesD:
  "launchesWith inp ep m \<Longrightarrow> m st = (r, st') \<Longrightarrow>
     \<exists>evs. trace st' = trace st @ evs \<and> (\<forall>e\<in>set evs. launchedWith st' inp ep e)"
  unfolding launchesWith_def by (elim allE impE) assumption+

lemma launches_quiet:
  assumes "follows (emitsOnly (\<lambda>e. \<not> isLaunch e)) m"
  shows "launchesWith inp ep m"
  unfolding launchesWith_def
proof (intro allI impI)
  fix st r st' assume "m st = (r, st')"
  from followsD [OF assms this] obtain evs where
    "trace st' = trace st @ evs" "\<forall>e\<in>set evs. \<not> isLaunch e"
    unfolding emitsOnly_def by (elim exE conjE)
  then show "\<exists>evs. trace st' = trace st @ evs \<and> (\<forall>e\<in>set evs. launchedWith st' inp ep e)"
    by (intro exI [of _ evs]) (simp add: launchedWith_other)
qed

lemma launches_prefix:
  assumes m: "follows (emitsOnly (\<lambda>e. \<not> isLaunch e)) m"
    and f: "\<And>x. launchesWith inp ep (f x)"
  shows "launchesWith inp ep (seq m f)"
  unfolding launchesWith_def
proof (intro allI impI)
  fix st r st' assume "seq m f st = (r, st')"
  then show "\<exists>evs. trace st' = trace st @ evs \<and> (\<forall>e\<in>set evs. launchedWith st' inp ep e)"
  proof (cases rule: seqE)
    case (stop e)
    from launchesD [OF launches_quiet [OF m] stop(1)] show ?thesis .
  next
    case (go x s1)
    from followsD [OF m go(1)] obtain evs1 where
      e1: "trace s1 = trace st @ evs1" "\<forall>e\<in>set evs1. \<not> isLaunch e"
      unfolding emitsOnly_def by (elim exE conjE)
    from launchesD [OF f go(2)] obtain evs2 where
      e2: "trace st' = trace s1 @ evs2" "\<forall>e\<in>set evs2. launchedWith st' inp ep e"
      by (elim exE conjE)
    from e1 e2 show ?thesis
      by (intro exI [of _ "evs1 @ evs2"]) (auto simp: launchedWith_other)
  qed
qed

lemma launches_suffix:
  assumes m: "launchesWith inp ep m"
    and g: "\<And>x. follows (emitsOnly (\<lambda>e. \<not> isLaunch e)) (g x)"
    and t: "\<And>x. follows sameTargets (g x)"
  shows "launchesWith inp ep (seq m g)"
  unfolding launchesWith_def
proof (intro allI impI)
  fix st r st' assume "seq m g st = (r, st')"
  then show "\<exists>evs. trace st' = trace st @ evs \<and> (\<forall>e\<in>set evs. launchedWith st' inp ep e)"
  proof (cases rule: seqE)
    case (stop e)
    from launchesD [OF m stop(1)] show ?thesis .
  next
    case (go x s1)
    from launchesD [OF m go(1)] obtain evs1 where
      e1: "trace s1 = trace st @ evs1" "\<forall>e\<in>set evs1. launchedWith s1 inp ep e"
      by (elim exE conjE)
    from followsD [OF g go(2)] obtain evs2 where
      e2: "trace st' = trace s1 @ evs2" "\<forall>e\<in>set evs2. \<not> isLaunch e"
      unfolding emitsOnly_def by (elim exE conjE)
    from followsD [OF t go(2)] have "m_target st' = m_target s1"
      by (simp add: sameTargets_def)
    from launchedWith_cong [OF this] e1(2)
    have "\<forall>e\<in>set evs1. launchedWith st' inp ep e" by simp
    with e1(1) e2 show ?thesis
      by (intro exI [of _ "evs1 @ evs2"]) (auto simp: launchedWith_other)
  qed
qed

lemma launchKernel_launches: "launchesWith inp ep (launchKernel debug drv inp k ep)"
  unfolding launchesWith_def
proof (intro allI impI)
  fix st r st' assume a: "launchKernel debug drv inp k ep st = (r, st')"
  let ?c = "cuLaunchKernel k (1, 1, 1) (blockOf ep) 0 0
              [getCUDAData st (getEntryPointValue inp), getCUDAData st (getRootValue inp)]"
  have c: "follows (emitsOnly (\<lambda>e. fst e = ?c \<or> \<not> isLaunch e))
             (seq (checked debug drv ?c)
                (\<lambda>_. seq (checked debug drv cudaDeviceSynchronize) (\<lambda>_. ret ())))"
    by (intro emits_seq emits_checked emits_ret) simp_all
  from a have "seq (checked debug drv ?c)
      (\<lambda>_. seq (checked debug drv cudaDeviceSynchronize) (\<lambda>_. ret ())) st = (r, st')"
    by (simp add: launchKernel_unfold)
  from followsD [OF c this] obtain evs where
    e: "trace st' = trace st @ evs" "\<forall>e\<in>set evs. fst e = ?c \<or> \<not> isLaunch e"
    unfolding emitsOnly_def by (elim exE conjE)
  from followsD [OF launchKernel_same a] have same: "m_target st' = m_target st"
    by (simp add: sameTargets_def)
  have "launchedWith st' inp ep e" if "e \<in> set evs" for e
  proof (cases "isLaunch e")
    case False
    then show ?thesis by (rule launchedWith_other)
  next
    case True
    with e(2) that have "fst e = ?c" by blast
    then have "launchedWith st inp ep e" by (cases e) simp
    with launchedWith_cong [OF same] show ?thesis by simp
  qed
  with e(1) show "\<exists>evs. trace st' = trace st @ evs \<and> (\<forall>e\<in>set evs. launchedWith st' inp ep e)"
    by blast
qed

lemma launch_launches: "launchesWith inp ep (launch debug drv inp k ep)"
  unfolding launch_def
  by (intro launches_prefix emits_checked launchKernel_launches) simp_all

lemma quiet_not_launch: "quiet e \<Longrightarrow> \<not> isLaunch e"
  by (simp add: quiet_def)

lemma roundTrip_tail_emits:
  "follows (emitsOnly (\<lambda>e. \<not> isLaunch e))
     (seq (download debug drv inp is)
        (\<lambda>_. if stream \<noteq> 0 then seq (checked debug drv (cudaStreamDestroy stream)) (\<lambda>_. ret ())
             else ret ()))"
  by (intro emits_seq follows_if emits_checked emits_ret
        follows_mono [OF download_emits]) (simp_all add: copyBackEvent_def)

lemma roundTrip_tail_same:
  "follows sameTargets
     (seq (download debug drv inp is)
        (\<lambda>_. if stream \<noteq> 0 then seq (checked debug drv (cudaStreamDestroy stream)) (\<lambda>_. ret ())
             else ret ()))"
  by (intro same_seq follows_if same_checked same_ret download_same)

lemma roundTrip_launches: "launchesWith inp ep (roundTrip debug drv inp k ep)"
  unfolding roundTrip_def
  apply (rule launches_prefix)
   apply (rule follows_mono [OF createResources_emits])
   apply (auto elim: isMalloc.elims isFree.elims)[1]
  apply (rule launches_prefix)
   apply (rule setBindings_emits)
  apply (rule launches_prefix)
   apply (rule follows_mono [OF upload_emits])
   apply (erule quiet_not_launch)
  apply (rule launches_suffix)
    apply (rule launch_launches)
   apply (rule roundTrip_tail_emits)
  apply (rule roundTrip_tail_same)
  done

lemma getEntryPointByIndex_0:
  "getEntryPointByIndex eps 0 = Some ep \<Longrightarrow> eps \<noteq> [] \<and> ep = eps ! 0"
  by (auto simp: getEntryPointByIndex_def split: if_splits)

lemma stages_launches:
  assumes "stages debug drv module inp st = (r, st')"
  shows "\<exists>evs. trace st' = trace st @ evs
           \<and> (\<forall>e\<in>set evs. isLaunch e \<longrightarrow>
                 entryPoints inp \<noteq> [] \<and> launchedWith st' inp (entryPoints inp ! 0) e)"
  using assms unfolding stages_def
proof (cases rule: seqE)
  case (stop e)
  from followsD [OF resolveEntryPoint_emits stop(1)] show ?thesis
    by (auto simp: emitsOnly_def dest: quiet_not_launch)
next
  case (go x s1)
  obtain ep k where x: "x = (ep, k)" by (cases x)
  from go(1) x have ep: "entryPoints inp \<noteq> []" "ep = entryPoints inp ! 0"
    using resolveEntryPoint_Inr getEntryPointByIndex_0 by blast+
  from followsD [OF resolveEntryPoint_emits go(1)] obtain evs1 where
    e1: "trace s1 = trace st @ evs1" "\<forall>e\<in>set evs1. \<not> isLaunch e"
    by (auto simp: emitsOnly_def dest: quiet_not_launch)
  have lw: "launchesWith inp ep (seq (addValues drv) (\<lambda>_. roundTrip debug drv inp k ep))"
    by (intro launches_prefix follows_mono [OF addValues_emits] roundTrip_launches)
       (erule quiet_not_launch)
  from go(2) x have g2: "seq (addValues drv) (\<lambda>_. roundTrip debug drv inp k ep) s1 = (r, st')"
    by simp
  from launchesD [OF lw g2] obtain evs2 where
    e2: "trace st' = trace s1 @ evs2" "\<forall>e\<in>set evs2. launchedWith st' inp ep e"
    by (elim exE conjE)
  from e1 e2 ep show ?thesis
    by (intro exI [of _ "evs1 @ evs2"]) auto
qed

text \<open>The conversion keeps every thread-group size below \<open>2 ^ 32\<close>.\<close>

lemma blockOf_exact:
  assumes "getComputeThreadGroupSize ep = (x, y, z)"
    and "unat x < 2 ^ 32" "unat y < 2 ^ 32" "unat z < 2 ^ 32"
  shows "case blockOf ep of (bx, by, bz) \<Rightarrow> unat bx = unat x \<and> unat by = unat y \<and> unat bz = unat z"
  using assms by (simp add: blockOf_def unsigned_ucast_eq take_bit_nat_eq_self)

text \<open>
  C7: every launch in the trace of \<open>_compute\<close> has grid dimensions (1, 1, 1), as block
  dimensions the three thread-group sizes of entry point 0 (each converted to \<^verbatim>\<open>int\<close>,
  as the code does), shared memory size 0, and as arguments exactly two device pointers:
  first that of the Value of the entry point, then that of the root Value, as the
  targets stand when the stages end.
\<close>

theorem compute_launches:
  assumes "compute debug drv module inp st = (r, st')"
  shows "\<exists>evs. trace st' = trace st @ evs
           \<and> (\<forall>e\<in>set evs. isLaunch e \<longrightarrow>
                 entryPoints inp \<noteq> []
               \<and> launchedWith (snd (stages debug drv module inp st)) inp (entryPoints inp ! 0) e)"
  using assms unfolding compute_def
proof (cases rule: seqE)
  case (stop e)
  from stages_launches [OF stop(1)] stop(1) show ?thesis by simp
next
  case (go x s1)
  from stages_launches [OF go(1)] go(1) obtain evs1 where
    e1: "trace s1 = trace st @ evs1"
    "\<forall>e\<in>set evs1. isLaunch e \<longrightarrow> entryPoints inp \<noteq> []
        \<and> launchedWith (snd (stages debug drv module inp st)) inp (entryPoints inp ! 0) e"
    by auto
  from release_trace [OF go(2)] obtain fs where
    e2: "trace st' = trace s1 @ (releaseValueTargets, (0, 0)) # fs" "\<forall>e\<in>set fs. isFree e"
    by (elim exE conjE)
  have "\<not> isLaunch e" if "isFree e" for e
    using that by (cases e rule: isFree.cases) simp_all
  with e1 e2 show ?thesis
    by (intro exI [of _ "evs1 @ (releaseValueTargets, (0, 0)) # fs"]) auto
qed

theorem compute_launches_witness:
  "(cuLaunchKernel 1 (1, 1, 1) (8, 1, 1) 0 0 [4864, 4608], (0, 13))
     \<in> set (trace (snd (compute False drvOk 4 inpTiny st0)))
   \<and> launchedWith (snd (stages False drvOk 4 inpTiny st0)) inpTiny (entryPoints inpTiny ! 0)
        (cuLaunchKernel 1 (1, 1, 1) (8, 1, 1) 0 0 [4864, 4608], (0, 13))"
proof -
  let ?e = "(cuLaunchKernel 1 (1, 1, 1) (8, 1, 1) 0 0 [4864, 4608], (0, 13))"
  have mem: "?e \<in> set (trace (snd (compute False drvOk 4 inpTiny st0)))"
    by (simp add: run_defs input_defs)
  have "compute False drvOk 4 inpTiny st0
      = (fst (compute False drvOk 4 inpTiny st0), snd (compute False drvOk 4 inpTiny st0))"
    by simp
  from compute_launches [OF this] obtain evs where
    evs: "trace (snd (compute False drvOk 4 inpTiny st0)) = trace st0 @ evs"
    "\<forall>e\<in>set evs. isLaunch e \<longrightarrow> entryPoints inpTiny \<noteq> []
        \<and> launchedWith (snd (stages False drvOk 4 inpTiny st0)) inpTiny (entryPoints inpTiny ! 0) e"
    by (elim exE conjE)
  from evs(1) mem have "?e \<in> set evs" by (simp add: st0_def)
  with evs(2) have "launchedWith (snd (stages False drvOk 4 inpTiny st0)) inpTiny
      (entryPoints inpTiny ! 0) ?e" by force
  with mem show ?thesis ..
qed

subsection \<open>The copy back\<close>







subsection \<open>Failure and release\<close>

lemma freshlyD:
  "freshly vs m \<Longrightarrow> m st = (r, st') \<Longrightarrow> \<forall>v\<in>set vs. m_target st v = None
     \<Longrightarrow> emitsOnly (\<lambda>e. \<not> isRelease e \<and> \<not> isFree e) st st'"
  unfolding freshly_def by (elim allE impE) assumption+

lemma freshly_quiet:
  "follows (emitsOnly (\<lambda>e. \<not> isRelease e \<and> \<not> isFree e)) m \<Longrightarrow> freshly vs m"
  unfolding freshly_def by (blast dest: followsD)

lemma freshly_prefix:
  assumes m: "follows (emitsOnly (\<lambda>e. \<not> isRelease e \<and> \<not> isFree e)) m"
    and t: "follows sameTargets m"
    and f: "\<And>x. freshly vs (f x)"
  shows "freshly vs (seq m f)"
  unfolding freshly_def
proof (intro allI impI)
  fix st r st'
  assume run: "seq m f st = (r, st')" and fresh: "\<forall>v\<in>set vs. m_target st v = None"
  from run show "emitsOnly (\<lambda>e. \<not> isRelease e \<and> \<not> isFree e) st st'"
  proof (cases rule: seqE)
    case (stop e)
    from followsD [OF m stop(1)] show ?thesis .
  next
    case (go x s1)
    from followsD [OF t go(1)] fresh have "\<forall>v\<in>set vs. m_target s1 v = None"
      by (simp add: sameTargets_def)
    from freshlyD [OF f go(2) this] followsD [OF m go(1)] show ?thesis
      by (blast intro: emitsOnly_trans)
  qed
qed

lemma freshly_ret:
  assumes "freshly vs m"
  shows "freshly vs (seq m (\<lambda>x. ret (g x)))"
  unfolding freshly_def
proof (intro allI impI)
  fix st r st'
  assume run: "seq m (\<lambda>x. ret (g x)) st = (r, st')" and fresh: "\<forall>v\<in>set vs. m_target st v = None"
  from run obtain r0 where "m st = (r0, st')"
    by (cases rule: seqE) (auto simp: ret_def)
  from freshlyD [OF assms this fresh] show "emitsOnly (\<lambda>e. \<not> isRelease e \<and> \<not> isFree e) st st'" .
qed

lemma freshly_if: "freshly vs a \<Longrightarrow> freshly vs b \<Longrightarrow> freshly vs (if c then a else b)"
  by simp

lemma quiet_kept: "quiet e \<Longrightarrow> \<not> isRelease e \<and> \<not> isFree e"
  by (simp add: quiet_def)

lemma roundTrip_rest_emits:
  "follows (emitsOnly (\<lambda>e. \<not> isRelease e \<and> \<not> isFree e))
     (seq (setBindings (getBindings inp)) (\<lambda>_.
      seq (upload debug drv inp (getValues inp)) (\<lambda>_.
      seq (launch debug drv inp k ep) (\<lambda>_.
      seq (download debug drv inp [0..<length (entries inp)]) (\<lambda>_.
      if stream \<noteq> 0
      then seq (checked debug drv (cudaStreamDestroy stream)) (\<lambda>_. ret ())
      else ret ())))))"
  by (intro emits_seq follows_if emits_ret emits_checked setBindings_emits
        follows_mono [OF upload_emits] follows_mono [OF launch_emits]
        follows_mono [OF download_emits])
     (simp_all add: quiet_def launcherEvent_def copyBackEvent_def)

lemma roundTrip_freshly:
  assumes "distinct (getValues inp)"
  shows "freshly (getValues inp) (roundTrip debug drv inp k ep)"
  unfolding freshly_def roundTrip_def
proof (intro allI impI)
  fix st r st'
  assume run: "seq (createResources debug drv inp (getValues inp)) (\<lambda>_.
      seq (setBindings (getBindings inp)) (\<lambda>_.
      seq (upload debug drv inp (getValues inp)) (\<lambda>_.
      seq (launch debug drv inp k ep) (\<lambda>_.
      seq (download debug drv inp [0..<length (entries inp)]) (\<lambda>_.
      if stream \<noteq> 0
      then seq (checked debug drv (cudaStreamDestroy stream)) (\<lambda>_. ret ())
      else ret ()))))) st = (r, st')"
    and fresh: "\<forall>v\<in>set (getValues inp). m_target st v = None"
  have mono: "emitsOnly isMalloc a b \<Longrightarrow> emitsOnly (\<lambda>e. \<not> isRelease e \<and> \<not> isFree e) a b" for a b
    by (erule emitsOnly_mono) (auto elim: isMalloc.elims)
  from run show "emitsOnly (\<lambda>e. \<not> isRelease e \<and> \<not> isFree e) st st'"
  proof (cases rule: seqE)
    case (stop e)
    from createResources_fresh [OF stop(1) assms fresh] show ?thesis by (rule mono)
  next
    case (go x s1)
    from createResources_fresh [OF go(1) assms fresh]
    have "emitsOnly (\<lambda>e. \<not> isRelease e \<and> \<not> isFree e) st s1" by (rule mono)
    moreover from followsD [OF roundTrip_rest_emits go(2)]
    have "emitsOnly (\<lambda>e. \<not> isRelease e \<and> \<not> isFree e) s1 st'" .
    ultimately show ?thesis by (rule emitsOnly_trans)
  qed
qed

lemma stages_freshly:
  assumes "distinct (getValues inp)"
  shows "freshly (getValues inp) (stages debug drv module inp)"
  unfolding stages_def
  by (intro freshly_prefix follows_case_prod resolveEntryPoint_same addValues_same
        follows_mono [OF resolveEntryPoint_emits] follows_mono [OF addValues_emits]
        roundTrip_freshly [OF assms])
     (auto dest: quiet_kept split: prod.splits intro!: freshly_prefix addValues_same
        follows_mono [OF addValues_emits] roundTrip_freshly [OF assms])

lemma roundTrip_stops: "stopsAtFailure debug (roundTrip debug drv inp k ep)"
  unfolding roundTrip_def
  by (intro stops_seq stops_if stops_ret stops_checked createResources_stops setBindings_stops
        upload_stops launch_stops download_stops)

lemma stages_stops: "stopsAtFailure debug (stages debug drv module inp)"
  unfolding stages_def
  by (intro stops_seq stops_case_prod resolveEntryPoint_stops addValues_stops roundTrip_stops)

text \<open>The context.\<close>

lemma initCuda_emits: "follows (emitsOnly quiet) (initCuda debug drv)"
  by (auto simp: follows_def emitsOnly_def initCuda_def Let_def split: option.splits)

lemma initCuda_same: "follows sameTargets (initCuda debug drv)"
  by (auto simp: follows_def sameTargets_def initCuda_def Let_def split: option.splits)

lemma initCuda_stops: "stopsAtFailure debug (initCuda debug drv)"
  unfolding stopsAtFailure_def
proof (intro allI impI)
  fix st r st' assume a: "initCuda debug drv st = (r, st')"
  show "haltedAt debug st r st'"
  proof (cases "cuInitRes st")
    case (Some res)
    with a have "trace st' = trace st" by (auto simp: initCuda_def)
    then show ?thesis by (simp add: haltedAt_def)
  next
    case None
    let ?rep = "drv (trace st) (cuInit 0)"
    from a None have t: "trace st' = trace st @ [(cuInit 0, ?rep)]"
      and ko: "isError (fst ?rep) \<longrightarrow> reportsFailure debug r"
      by (auto simp: initCuda_def Let_def reportsFailure_def SLANG_CUDA_RETURN_ON_FAIL_def
            SLANG_ASSERT_def split: if_splits)
    have "stageFailure (cuInit 0, ?rep) \<Longrightarrow> isError (fst ?rep)"
      by (cases ?rep) auto
    with t ko show ?thesis
      unfolding haltedAt_def by (intro exI [of _ "[(cuInit 0, ?rep)]"]) auto
  qed
qed

lemma destroyContext_emits: "follows (emitsOnly quiet) (destroyContext drv)"
  by (auto simp: follows_def emitsOnly_def destroyContext_def doCall_def Let_def split: if_splits)

lemma destroyContext_same: "follows sameTargets (destroyContext drv)"
  by (auto simp: follows_def sameTargets_def destroyContext_def doCall_def Let_def split: if_splits)

lemma destroyContext_stops: "stopsAtFailure debug (destroyContext drv)"
proof (rule stops_quiet)
  show "follows (emitsOnly (\<lambda>e. \<not> stageFailure e)) (destroyContext drv)"
    by (auto simp: follows_def emitsOnly_def destroyContext_def doCall_def Let_def split: if_splits)
qed

lemma createContext_emits: "follows (emitsOnly quiet) (createContext drv flags device)"
  by (auto simp: follows_def emitsOnly_def createContext_def Let_def split: if_splits)

lemma createContext_same: "follows sameTargets (createContext drv flags device)"
  by (auto simp: follows_def sameTargets_def createContext_def Let_def split: if_splits)

lemma createContext_stops: "stopsAtFailure debug (createContext drv flags device)"
  unfolding stopsAtFailure_def
proof (intro allI impI)
  fix st r st' assume a: "createContext drv flags device st = (r, st')"
  let ?c = "cuCtxCreate flags device"
  let ?rep = "drv (trace st) ?c"
  from a have t: "trace st' = trace st @ [(?c, ?rep)]"
    and ko: "isError (fst ?rep) \<longrightarrow> reportsFailure debug r"
    by (auto simp: createContext_def Let_def reportsFailure_def split: if_splits)
  have "stageFailure (?c, ?rep) \<Longrightarrow> isError (fst ?rep)"
    by (cases ?rep) auto
  with t ko show "haltedAt debug st r st'"
    unfolding haltedAt_def by (intro exI [of _ "[(?c, ?rep)]"]) auto
qed

lemma init_emits: "follows (emitsOnly quiet) (ScopeCUDAContext_init debug rt drv flags)"
  unfolding ScopeCUDAContext_init_def
  by (intro emits_seq emits_lift emits_checked initCuda_emits destroyContext_emits
        createContext_emits) simp

lemma init_same: "follows sameTargets (ScopeCUDAContext_init debug rt drv flags)"
  unfolding ScopeCUDAContext_init_def
  by (intro same_seq same_lift same_checked initCuda_same destroyContext_same createContext_same)

lemma init_stops: "stopsAtFailure debug (ScopeCUDAContext_init debug rt drv flags)"
  unfolding ScopeCUDAContext_init_def
  by (intro stops_seq stops_lift stops_checked initCuda_stops destroyContext_stops
        createContext_stops)

lemma beforeRelease_stops: "stopsAtFailure debug (beforeRelease debug rt drv inp)"
  unfolding beforeRelease_def
  by (intro stops_seq stops_if stops_throw stops_ret stops_checked init_stops stages_stops)

lemma beforeRelease_freshly:
  assumes "distinct (getValues inp)"
  shows "freshly (getValues inp) (beforeRelease debug rt drv inp)"
  unfolding beforeRelease_def
  by (intro freshly_prefix freshly_if freshly_ret freshly_quiet emits_throw same_checked init_same
        follows_mono [OF init_emits] emits_checked stages_freshly [OF assms] emitsOnly_refl)
     (auto dest: quiet_kept)

lemma executeBody_split:
  "executeBody debug rt drv inp = seq (beforeRelease debug rt drv inp) (fromRelease debug drv inp)"
  by (rule ext)
     (auto simp: executeBody_def beforeRelease_def fromRelease_def compute_def seq_def throw_def
        ret_def split: prod.splits sum.splits)

lemma fromRelease_trace:
  assumes "fromRelease debug drv inp module st = (r, st')"
  shows "\<exists>evs. trace st' = trace st @ (releaseValueTargets, (0, 0)) # evs
            \<and> (\<forall>e\<in>set evs. \<not> isRelease e \<and> \<not> stageFailure e)"
proof -
  have free: "isFree e \<Longrightarrow> \<not> isRelease e \<and> \<not> stageFailure e" for e
    by (cases e rule: isFree.cases) auto
  from assms show ?thesis
    unfolding fromRelease_def
  proof (cases rule: seqE)
    case (stop e)
    from release_trace [OF stop(1)] free show ?thesis by blast
  next
    case (go x s1)
    from release_trace [OF go(1)] obtain fs where
      fs: "trace s1 = trace st @ (releaseValueTargets, (0, 0)) # fs" "\<forall>e\<in>set fs. isFree e"
      by (elim exE conjE)
    let ?c = "cuModuleUnload module"
    from go(2) have "trace st' = trace s1 @ [(?c, drv (trace s1) ?c)]"
      by (auto simp: checked_def seq_def doCall_def Let_def lift_def ret_def
            split: prod.splits sum.splits)
    with fs free show ?thesis
      by (intro exI [of _ "fs @ [(?c, drv (trace s1) ?c)]"]) auto
  qed
qed

lemma dtor_trace:
  "\<exists>post. trace (ScopeCUDAContext_dtor drv st) = trace st @ post \<and> length post \<le> 1
        \<and> (\<forall>x\<in>set post. \<exists>ctx rep. x = (cuCtxDestroy ctx, rep))"
  by (simp add: ScopeCUDAContext_dtor_def doCall_def Let_def)

lemma executeBody_shape:
  assumes run: "executeBody debug rt drv inp st = (r, st')"
    and d: "distinct (getValues inp)"
    and fresh: "\<forall>v\<in>set (getValues inp). m_target st v = None"
  shows "\<exists>evs. trace st' = trace st @ evs
           \<and> (\<forall>e\<in>set (butlast evs). \<not> stageFailure e)
           \<and> ((\<exists>e\<in>set evs. stageFailure e) \<longrightarrow>
                 reportsFailure debug r \<and> (\<forall>x\<in>set evs. \<not> isRelease x \<and> \<not> isFree x))
           \<and> length (filter isRelease evs) \<le> 1
           \<and> (r = Inr () \<longrightarrow> length (filter isRelease evs) = 1)"
proof -
  from run have "seq (beforeRelease debug rt drv inp) (fromRelease debug drv inp) st = (r, st')"
    by (simp add: executeBody_split)
  then show ?thesis
  proof (cases rule: seqE)
    case (stop e)
    from stopsD [OF beforeRelease_stops stop(1)] obtain evs where
      evs: "trace st' = trace st @ evs" "\<forall>e\<in>set (butlast evs). \<not> stageFailure e"
        "(\<exists>e\<in>set evs. stageFailure e) \<longrightarrow> reportsFailure debug r"
      unfolding haltedAt_def stop(2) reportsFailure_def by auto
    from freshlyD [OF beforeRelease_freshly [OF d] stop(1) fresh] evs(1)
    have q: "\<forall>x\<in>set evs. \<not> isRelease x \<and> \<not> isFree x"
      by (auto simp: emitsOnly_def)
    then have "filter isRelease evs = []" by (simp add: filter_empty_conv)
    with evs q stop(2) show ?thesis
      by (intro exI [of _ evs]) simp
  next
    case (go module s1)
    from stopsD [OF beforeRelease_stops go(1)] obtain evs1 where
      evs1: "trace s1 = trace st @ evs1" "\<forall>e\<in>set evs1. \<not> stageFailure e"
      unfolding haltedAt_def reportsFailure_def by auto
    from freshlyD [OF beforeRelease_freshly [OF d] go(1) fresh] evs1(1)
    have q: "\<forall>x\<in>set evs1. \<not> isRelease x" by (auto simp: emitsOnly_def)
    then have f1: "filter isRelease evs1 = []" by (simp add: filter_empty_conv)
    from fromRelease_trace [OF go(2)] obtain evs2 where
      evs2: "trace st' = trace s1 @ (releaseValueTargets, (0, 0)) # evs2"
        "\<forall>e\<in>set evs2. \<not> isRelease e \<and> \<not> stageFailure e"
      by (elim exE conjE)
    then have f2: "filter isRelease evs2 = []" by (simp add: filter_empty_conv)
    let ?evs = "evs1 @ (releaseValueTargets, (0, 0)) # evs2"
    have nf: "\<forall>e\<in>set ?evs. \<not> stageFailure e" using evs1(2) evs2(2) by auto
    then have "\<forall>e\<in>set (butlast ?evs). \<not> stageFailure e" by (meson in_set_butlastD)
    moreover have "length (filter isRelease ?evs) = 1" using f1 f2 by simp
    moreover have "trace st' = trace st @ ?evs" using evs1(1) evs2(1) by simp
    ultimately show ?thesis using nf
      by (intro exI [of _ ?evs]) simp
  qed
qed

lemma last_failure:
  "e \<in> set xs \<Longrightarrow> e \<notin> set (butlast xs) \<Longrightarrow> xs = butlast xs @ [e]"
  by (cases xs rule: rev_cases) auto

lemma reportsFailure_returned: "reportsFailure False r \<Longrightarrow> returned r"
  unfolding reportsFailure_def
  by (cases r rule: returned.cases) simp_all

subsection \<open>The number of entry points\<close>

text \<open>
  C1. \<^verbatim>\<open>_compute\<close> asserts that the reflection reports one entry point and then takes
  entry point 0. On \<open>inpTwoEntryPoints\<close>, whose reflection reports the two entry points
  \<^verbatim>\<open>main\<close> and \<^verbatim>\<open>other\<close>, a build without assertions allocates the four buffers, launches
  \<^verbatim>\<open>main\<close> and returns success; a build with assertions stops at the assertion, before
  any allocation, and returns no status.
\<close>

theorem execute_two_entry_points:
  "map getName (entryPoints inpTwoEntryPoints) = [''main'', ''other'']
   \<and> fst (execute False rtTie drvOk inpTwoEntryPoints st0) = Inr ()
   \<and> map fst (filter isMalloc (trace (snd (execute False rtTie drvOk inpTwoEntryPoints st0))))
       = [cudaMalloc 16, cudaMalloc 8, cudaMalloc 32, cudaMalloc 32]
   \<and> length (filter isLaunch (trace (snd (execute False rtTie drvOk inpTwoEntryPoints st0)))) = 1
   \<and> fst (execute True rtTie drvOk inpTwoEntryPoints st0) = Inl AssertFailed
   \<and> filter isMalloc (trace (snd (execute True rtTie drvOk inpTwoEntryPoints st0))) = []"
  by (simp add: run_defs input_defs rtTie_selected)

subsection \<open>A failure status comes from a failed call\<close>

lemma failsD:
  "failsAtCall m \<Longrightarrow> m st = (Inl e, st') \<Longrightarrow> isStatus e
     \<Longrightarrow> \<exists>evs. trace st' = trace st @ evs \<and> (\<exists>x\<in>set evs. stageFailure x)"
  unfolding failsAtCall_def by (elim allE impE) assumption+

lemma extends: "follows (emitsOnly P) m \<Longrightarrow> follows (emitsOnly (\<lambda>_. True)) m"
  by (erule follows_mono) simp

lemma checked_extends: "follows (emitsOnly (\<lambda>_. True)) (checked debug drv c)"
  by (rule emits_checked) simp

lemma fails_seq:
  assumes t: "follows (emitsOnly (\<lambda>_. True)) m" and m: "failsAtCall m" and f: "\<And>x. failsAtCall (f x)"
  shows "failsAtCall (seq m f)"
  unfolding failsAtCall_def
proof (intro allI impI)
  fix st e st' assume run: "seq m f st = (Inl e, st')" and s: "isStatus e"
  from run show "\<exists>evs. trace st' = trace st @ evs \<and> (\<exists>x\<in>set evs. stageFailure x)"
  proof (cases rule: seqE)
    case (stop e')
    with failsD [OF m, of st e st'] s show ?thesis by simp
  next
    case (go x s1)
    from followsD [OF t go(1)] obtain evs1 where e1: "trace s1 = trace st @ evs1"
      by (auto simp: emitsOnly_def)
    from failsD [OF f go(2) s] obtain evs2 where "trace st' = trace s1 @ evs2"
      "\<exists>x\<in>set evs2. stageFailure x" by blast
    with e1 show ?thesis by (intro exI [of _ "evs1 @ evs2"]) auto
  qed
qed

lemma fails_ret: "failsAtCall (ret x)"
  by (simp add: failsAtCall_def ret_def)

lemma fails_throw: "\<not> isStatus e \<Longrightarrow> failsAtCall (throw e)"
  by (auto simp: failsAtCall_def throw_def)

lemma fails_assert: "failsAtCall (lift (SLANG_ASSERT debug c))"
  by (auto simp: failsAtCall_def lift_def SLANG_ASSERT_def split: if_splits)

lemma fails_checked:
  assumes "\<And>rep. isError (fst rep) \<Longrightarrow> stageFailure (c, rep)"
  shows "failsAtCall (checked debug drv c)"
  unfolding failsAtCall_def
proof (intro allI impI)
  fix st e st' assume a: "checked debug drv c st = (Inl e, st')"
  let ?rep = "drv (trace st) c"
  from a have t: "trace st' = trace st @ [(c, ?rep)]" and ko: "isError (fst ?rep)"
    by (auto simp: checked_def seq_def doCall_def Let_def lift_def ret_def
          SLANG_CUDA_RETURN_ON_FAIL_def SLANG_ASSERT_def split: prod.splits sum.splits if_splits)
  from assms [OF ko] t
  show "\<exists>evs. trace st' = trace st @ evs \<and> (\<exists>x\<in>set evs. stageFailure x)"
    by (intro exI [of _ "[(c, ?rep)]"]) simp
qed

lemma fails_if: "failsAtCall a \<Longrightarrow> failsAtCall b \<Longrightarrow> failsAtCall (if c then a else b)"
  by simp

lemma fails_case_option:
  "failsAtCall a \<Longrightarrow> (\<And>y. failsAtCall (b y))
     \<Longrightarrow> failsAtCall (case x of None \<Rightarrow> a | Some y \<Rightarrow> b y)"
  by (cases x) simp_all

lemma fails_case_prod:
  "(\<And>a b. failsAtCall (f a b)) \<Longrightarrow> failsAtCall (case x of (a, b) \<Rightarrow> f a b)"
  by (cases x) simp

lemma fails_call:
  "(\<And>rep. isError (fst rep) \<Longrightarrow> stageFailure (c, rep))
     \<Longrightarrow> failsAtCall (seq (checked debug drv c) (\<lambda>_. ret ()))"
  by (intro fails_seq fails_checked fails_ret checked_extends) auto

lemma assignTarget_Inl:
  "assignTarget debug drv v t st = (Inl e, st') \<Longrightarrow> \<not> isStatus e"
  by (auto simp: assignTarget_def destroyTarget_def Let_def seq_def doCall_def lift_def ret_def
        SLANG_CUDA_ASSERT_ON_FAIL_def SLANG_ASSERT_def
        split: option.splits target.splits if_splits prod.splits sum.splits)

lemma assignTarget_fails: "failsAtCall (assignTarget debug drv v t)"
  unfolding failsAtCall_def by (blast dest: assignTarget_Inl)

lemma assignTarget_emits: "follows (emitsOnly isFree) (assignTarget debug drv v t)"
  unfolding follows_def emitsOnly_def using assignTarget_effect by blast

lemma allocateTarget_fails: "failsAtCall (allocateTarget debug drv inp v)"
  unfolding allocateTarget_def
  by (intro fails_seq fails_checked assignTarget_fails checked_extends)
     auto

lemma createResource_fails: "failsAtCall (createResource debug drv inp v)"
  unfolding createResource_cases
  by (intro fails_if fails_case_option allocateTarget_fails fails_ret fails_assert)

lemma createResource_emits:
  "follows (emitsOnly (\<lambda>e. isMalloc e \<or> isFree e)) (createResource debug drv inp v)"
  unfolding follows_def emitsOnly_def using createResource_effect by blast

lemma createResources_fails: "failsAtCall (createResources debug drv inp vs)"
  by (induction vs) (auto intro!: fails_ret fails_seq createResource_fails createResource_emits [THEN extends])

lemma setBinding_Inl: "setBinding b st = (Inl e, st') \<Longrightarrow> \<not> isStatus e"
  by (auto simp: setBinding_def writeUniform_def Let_def
        split: prod.splits Kind.splits SlangResourceShape.splits if_splits)

lemma setBindings_Inl: "setBindings bs st = (Inl e, st') \<Longrightarrow> \<not> isStatus e"
proof (induction bs arbitrary: st)
  case Nil
  then show ?case by (simp add: ret_def)
next
  case (Cons b bs)
  from Cons.prems have "seq (setBinding b) (\<lambda>_. setBindings bs) st = (Inl e, st')" by simp
  then show ?case
  proof (cases rule: seqE)
    case (stop e')
    then show ?thesis by (auto dest: setBinding_Inl)
  next
    case (go x s1)
    then show ?thesis by (auto dest: Cons.IH)
  qed
qed

lemma setBindings_fails: "failsAtCall (setBindings bs)"
  unfolding failsAtCall_def by (blast dest: setBindings_Inl)

lemma uploadValue_fails: "failsAtCall (uploadValue debug drv inp v)"
proof -
  have c: "failsAtCall (seq (checked debug drv (cudaMemcpy a b n cudaMemcpyHostToDevice))
                          (\<lambda>_. ret ()))" for a b n
    by (rule fails_call) auto
  show ?thesis
    unfolding failsAtCall_def uploadValue_def Let_def
    by (auto split: if_splits dest: failsD [OF c])
qed

lemma upload_fails: "failsAtCall (upload debug drv inp vs)"
  by (induction vs) (auto intro!: fails_ret fails_seq uploadValue_fails uploadValue_emits [THEN extends])

lemma launchKernel_fails: "failsAtCall (launchKernel debug drv inp k ep)"
proof -
  have c: "failsAtCall (seq (checked debug drv (cuLaunchKernel k g b s h args))
             (\<lambda>_. seq (checked debug drv cudaDeviceSynchronize) (\<lambda>_. ret ())))" for g b s h args
    by (intro fails_seq fails_checked fails_ret checked_extends) auto
  show ?thesis
    unfolding failsAtCall_def launchKernel_unfold
    by (intro allI impI) (erule (1) failsD [OF c])
qed

lemma launch_fails: "failsAtCall (launch debug drv inp k ep)"
  unfolding launch_def
  by (intro fails_seq fails_checked launchKernel_fails checked_extends) auto

lemma copyBack_fails: "failsAtCall (copyBack debug drv inp i)"
proof -
  have c: "failsAtCall (seq (checked debug drv c) (\<lambda>_. ret ()))"
    if "copyBackCall inp st i = Some c" for c st
  proof (rule fails_call)
    fix rep :: reply assume "isError (fst rep)"
    with that show "stageFailure (c, rep)"
      by (cases rep) (auto simp: copyBackCall_def Let_def split: if_splits option.splits)
  qed
  show ?thesis
    unfolding failsAtCall_def copyBack_cases
    by (intro allI impI)
       (auto split: if_splits option.splits simp: ret_def throw_def dest: failsD [OF c])
qed

lemma download_fails: "failsAtCall (download debug drv inp is)"
  by (induction "is") (auto intro!: fails_ret fails_seq copyBack_fails copyBack_emits [THEN extends])

lemma roundTrip_fails: "failsAtCall (roundTrip debug drv inp k ep)"
  unfolding roundTrip_def
  by (intro fails_seq fails_if fails_ret fails_checked createResources_fails setBindings_fails
        upload_fails launch_fails download_fails createResources_emits [THEN extends]
        setBindings_emits upload_emits [THEN extends] launch_emits [THEN extends]
        download_emits [THEN extends] checked_extends)
     auto

subsection \<open>What is allocated and what is freed\<close>

lemma allocated_append [simp]: "allocated (xs @ ys) = allocated xs @ allocated ys"
  by (simp add: allocated_def List.map_filter_def)

lemma freed_append [simp]: "freed (xs @ ys) = freed xs @ freed ys"
  by (simp add: freed_def List.map_filter_def)

lemma allocated_Nil [simp]: "allocated [] = []"
  by (simp add: allocated_def List.map_filter_def)

lemma freed_Nil [simp]: "freed [] = []"
  by (simp add: freed_def List.map_filter_def)

lemma allocated_none: "\<forall>x\<in>set evs. \<not> isMalloc x \<Longrightarrow> allocated evs = []"
proof (induction evs)
  case Nil
  show ?case by simp
next
  case (Cons x evs)
  then have "allocation x = None" by (cases x rule: allocation.cases) simp_all
  with Cons show ?case by (simp add: allocated_def List.map_filter_def)
qed

lemma freed_none: "\<forall>x\<in>set evs. \<not> isFree x \<Longrightarrow> freed evs = []"
proof (induction evs)
  case Nil
  show ?case by simp
next
  case (Cons x evs)
  then have "freeing x = None" by (cases x rule: freeing.cases) simp_all
  with Cons show ?case by (simp add: freed_def List.map_filter_def)
qed

lemma owned_Nil [simp]: "owned st [] = []"
  by (simp add: owned_def List.map_filter_def)

lemma owned_Cons:
  "owned st (v # vs) = (case ownedMemory (m_target st v) of None \<Rightarrow> [] | Some p \<Rightarrow> [p]) @ owned st vs"
  by (simp add: owned_def List.map_filter_def split: option.splits)

lemma owned_cong: "(\<And>v. v \<in> set vs \<Longrightarrow> m_target st' v = m_target st v) \<Longrightarrow> owned st' vs = owned st vs"
  by (induction vs) (simp_all add: owned_Cons)

lemma allocateTarget_Inr:
  assumes "allocateTarget debug drv inp v st = (Inr (), st')" "m_target st v = None"
  shows "\<exists>p. trace st' = trace st @ [(cudaMalloc (m_sizeInBytes (valueAt inp v)), (0, p))]
           \<and> m_target st' = (m_target st)(v := Some (CUDAResource p))"
proof -
  from assms(1) obtain p s1 where
    c: "checked debug drv (cudaMalloc (m_sizeInBytes (valueAt inp v))) st = (Inr p, s1)"
    and a: "assignTarget debug drv v (Some (CUDAResource p)) s1 = (Inr (), st')"
    unfolding allocateTarget_def seq_Inr by blast
  from checked_Inr [OF c] have s1: "trace s1 = trace st @ [(cudaMalloc (m_sizeInBytes (valueAt inp v)), (0, p))]"
    "m_target s1 = m_target st" by simp_all
  from assignTarget_effect [OF a] s1 assms(2) show ?thesis by auto
qed

lemma createResource_Inr:
  assumes run: "createResource debug drv inp v st = (Inr (), st')" and none: "m_target st v = None"
  shows "\<exists>evs. trace st' = trace st @ evs \<and> allocated evs = owned st' [v]
           \<and> (\<forall>w. w \<noteq> v \<longrightarrow> m_target st' w = m_target st w)"
proof (cases "buffered (valueAt inp v)")
  case True
  with run have "allocateTarget debug drv inp v st = (Inr (), st')"
    by (simp add: createResource_cases)
  from allocateTarget_Inr [OF this none] obtain p where
    p: "trace st' = trace st @ [(cudaMalloc (m_sizeInBytes (valueAt inp v)), (0, p))]"
       "m_target st' = (m_target st)(v := Some (CUDAResource p))" by blast
  then show ?thesis
    by (intro exI [of _ "[(cudaMalloc (m_sizeInBytes (valueAt inp v)), (0, p))]"])
       (simp add: allocated_def owned_def List.map_filter_def)
next
  case False
  with run have "st' = st"
    by (auto simp: createResource_cases ret_def lift_def split: option.splits if_splits)
  with none show ?thesis
    by (intro exI [of _ "[]"]) (simp add: owned_Cons)
qed

lemma createResources_allocated:
  "createResources debug drv inp vs st = (Inr (), st') \<Longrightarrow> distinct vs
     \<Longrightarrow> \<forall>v\<in>set vs. m_target st v = None
     \<Longrightarrow> \<exists>evs. trace st' = trace st @ evs \<and> allocated evs = owned st' vs"
proof (induction vs arbitrary: st)
  case Nil
  then show ?case by (simp add: ret_def)
next
  case (Cons v vs)
  from Cons.prems(1) obtain x s1 where
    one: "createResource debug drv inp v st = (Inr x, s1)"
    and rest: "createResources debug drv inp vs s1 = (Inr (), st')"
    by (auto simp: seq_Inr)
  from one have one': "createResource debug drv inp v st = (Inr (), s1)" by simp
  from Cons.prems(3) have none: "m_target st v = None" by simp
  from createResource_Inr [OF one' none] obtain evs1 where
    e1: "trace s1 = trace st @ evs1" "allocated evs1 = owned s1 [v]"
        "\<forall>w. w \<noteq> v \<longrightarrow> m_target s1 w = m_target st w" by blast
  from Cons.prems(2,3) e1(3) have fresh: "\<forall>w\<in>set vs. m_target s1 w = None" by auto
  from Cons.prems(2) have d: "distinct vs" and nv: "v \<notin> set vs" by simp_all
  from Cons.IH [OF rest d fresh] obtain evs2 where
    e2: "trace st' = trace s1 @ evs2" "allocated evs2 = owned st' vs" by blast
  from createResources_others [OF rest nv] have "m_target st' v = m_target s1 v" .
  then have "owned st' [v] = owned s1 [v]" by (simp add: owned_Cons)
  with e1 e2 show ?case
    by (intro exI [of _ "evs1 @ evs2"]) (simp add: owned_Cons)
qed

lemma destroyTarget_frees:
  assumes "destroyTarget debug drv t st = (r, st')"
  shows "\<exists>fs. trace st' = trace st @ fs
           \<and> freed fs = (case ownedMemory t of None \<Rightarrow> [] | Some p \<Rightarrow> [p])
           \<and> (r = Inr () \<or> debug \<and> r = Inl AssertFailed \<and> (\<exists>e\<in>set fs. freeFailure e))"
proof (cases "ownedMemory t")
  case None
  with assms have "st' = st" "r = Inr ()"
    by (auto simp: destroyTarget_def ret_def split: option.splits target.splits if_splits)
  with None show ?thesis by (intro exI [of _ "[]"]) simp
next
  case (Some p)
  then have t: "t = Some (CUDAResource p)" "p \<noteq> 0"
    by (cases t rule: ownedMemory.cases; simp split: if_splits)+
  let ?rep = "drv (trace st) (cudaFree p)"
  from assms t have tr: "trace st' = trace st @ [(cudaFree p, ?rep)]"
    and res: "r = Inr () \<or> debug \<and> r = Inl AssertFailed \<and> isError (fst ?rep)"
    by (auto simp: destroyTarget_def seq_def doCall_def Let_def lift_def ret_def
          SLANG_CUDA_ASSERT_ON_FAIL_def SLANG_ASSERT_def split: prod.splits if_splits)
  have "isError (fst ?rep) \<Longrightarrow> freeFailure (cudaFree p, ?rep)"
    by (cases ?rep) simp
  with tr res Some show ?thesis
    by (intro exI [of _ "[(cudaFree p, ?rep)]"])
       (auto simp: freed_def List.map_filter_def)
qed

lemma releaseTargets_frees:
  "releaseTargets debug drv vs st = (r, st') \<Longrightarrow> distinct vs
     \<Longrightarrow> \<exists>fs. trace st' = trace st @ fs
           \<and> (r = Inr () \<longrightarrow> freed fs = owned st vs \<and> (\<forall>v\<in>set vs. m_target st' v = None))
           \<and> (r = Inr () \<or> debug \<and> r = Inl AssertFailed \<and> (\<exists>e\<in>set fs. freeFailure e))
           \<and> (\<forall>w. w \<notin> set vs \<longrightarrow> m_target st' w = m_target st w)"
proof (induction vs arbitrary: st)
  case Nil
  then show ?case by (auto simp: ret_def)
next
  case (Cons v vs)
  let ?s0 = "st\<lparr>m_target := (m_target st)(v := None)\<rparr>"
  from Cons.prems(2) have d: "distinct vs" and nv: "v \<notin> set vs" by simp_all
  from Cons.prems(1) have "seq (assignTarget debug drv v None) (\<lambda>_. releaseTargets debug drv vs) st
      = (r, st')" by simp
  then show ?case
  proof (cases rule: seqE)
    case (stop e)
    then have dt: "destroyTarget debug drv (m_target st v) ?s0 = (Inl e, st')"
      by (simp add: assignTarget_def Let_def)
    from destroyTarget_frees [OF dt] destroyTarget_effect [OF dt] stop(2) show ?thesis
      by auto
  next
    case (go x s1)
    then have dt: "destroyTarget debug drv (m_target st v) ?s0 = (Inr x, s1)"
      by (simp add: assignTarget_def Let_def)
    from destroyTarget_frees [OF dt] obtain fs1 where
      f1: "trace s1 = trace st @ fs1"
          "freed fs1 = (case ownedMemory (m_target st v) of None \<Rightarrow> [] | Some p \<Rightarrow> [p])"
      by auto
    from destroyTarget_effect [OF dt] have t1: "m_target s1 = (m_target st)(v := None)" by simp
    from Cons.IH [OF go(2) d] obtain fs2 where
      f2: "trace st' = trace s1 @ fs2"
          "r = Inr () \<longrightarrow> freed fs2 = owned s1 vs \<and> (\<forall>v\<in>set vs. m_target st' v = None)"
          "r = Inr () \<or> debug \<and> r = Inl AssertFailed \<and> (\<exists>e\<in>set fs2. freeFailure e)"
          "\<forall>w. w \<notin> set vs \<longrightarrow> m_target st' w = m_target s1 w"
      by blast
    have o: "owned s1 vs = owned st vs"
      using nv t1 by (intro owned_cong) auto
    from f2(4) nv t1 have "m_target st' v = None" by simp
    with f1 f2 o t1 show ?thesis
      by (intro exI [of _ "fs1 @ fs2"]) (auto simp: owned_Cons)
  qed
qed

lemma roundTrip_rest_allocates:
  "follows (emitsOnly (\<lambda>e. \<not> isMalloc e))
     (seq (setBindings (getBindings inp)) (\<lambda>_.
      seq (upload debug drv inp (getValues inp)) (\<lambda>_.
      seq (launch debug drv inp k ep) (\<lambda>_.
      seq (download debug drv inp [0..<length (entries inp)]) (\<lambda>_.
      if stream \<noteq> 0
      then seq (checked debug drv (cudaStreamDestroy stream)) (\<lambda>_. ret ())
      else ret ())))))"
  by (intro emits_seq follows_if emits_ret emits_checked setBindings_emits
        follows_mono [OF upload_emits] follows_mono [OF launch_emits]
        follows_mono [OF download_emits])
     (simp_all add: quiet_def launcherEvent_def copyBackEvent_def)

lemma roundTrip_rest_same:
  "follows sameTargets
     (seq (setBindings (getBindings inp)) (\<lambda>_.
      seq (upload debug drv inp (getValues inp)) (\<lambda>_.
      seq (launch debug drv inp k ep) (\<lambda>_.
      seq (download debug drv inp [0..<length (entries inp)]) (\<lambda>_.
      if stream \<noteq> 0
      then seq (checked debug drv (cudaStreamDestroy stream)) (\<lambda>_. ret ())
      else ret ())))))"
  by (intro same_seq follows_if same_ret same_checked setBindings_same upload_same launch_same
        download_same)

lemma roundTrip_allocated:
  assumes run: "roundTrip debug drv inp k ep st = (Inr (), st')"
    and d: "distinct (getValues inp)"
    and fresh: "\<forall>v\<in>set (getValues inp). m_target st v = None"
  shows "\<exists>evs. trace st' = trace st @ evs \<and> allocated evs = owned st' (getValues inp)"
proof -
  from run obtain x s1 where
    c: "createResources debug drv inp (getValues inp) st = (Inr x, s1)"
    and rest: "seq (setBindings (getBindings inp)) (\<lambda>_.
      seq (upload debug drv inp (getValues inp)) (\<lambda>_.
      seq (launch debug drv inp k ep) (\<lambda>_.
      seq (download debug drv inp [0..<length (entries inp)]) (\<lambda>_.
      if stream \<noteq> 0
      then seq (checked debug drv (cudaStreamDestroy stream)) (\<lambda>_. ret ())
      else ret ())))) s1 = (Inr (), st')"
    unfolding roundTrip_def seq_Inr [of "createResources debug drv inp (getValues inp)"] by blast
  from c have c': "createResources debug drv inp (getValues inp) st = (Inr (), s1)" by simp
  from createResources_allocated [OF c' d fresh] obtain evs1 where
    e1: "trace s1 = trace st @ evs1" "allocated evs1 = owned s1 (getValues inp)" by blast
  from followsD [OF roundTrip_rest_allocates rest] obtain evs2 where
    e2: "trace st' = trace s1 @ evs2" "\<forall>x\<in>set evs2. \<not> isMalloc x"
    by (auto simp: emitsOnly_def)
  from followsD [OF roundTrip_rest_same rest] have "m_target st' = m_target s1"
    by (simp add: sameTargets_def)
  then have "owned st' (getValues inp) = owned s1 (getValues inp)"
    by (intro owned_cong) simp
  with e1 e2 allocated_none [OF e2(2)] show ?thesis
    by (intro exI [of _ "evs1 @ evs2"]) simp
qed

lemma quiet_allocated:
  assumes "follows (emitsOnly quiet) m" "follows sameTargets m" "m st = (r, s1)"
  shows "\<exists>evs. trace s1 = trace st @ evs \<and> allocated evs = [] \<and> m_target s1 = m_target st"
proof -
  from followsD [OF assms(1,3)] obtain evs where
    "trace s1 = trace st @ evs" "\<forall>x\<in>set evs. quiet x" by (auto simp: emitsOnly_def)
  moreover then have "allocated evs = []"
    by (intro allocated_none) (simp add: quiet_def)
  moreover from followsD [OF assms(2,3)] have "m_target s1 = m_target st"
    by (simp add: sameTargets_def)
  ultimately show ?thesis by blast
qed

lemma stages_allocated:
  assumes run: "stages debug drv module inp st = (Inr (), st')"
    and d: "distinct (getValues inp)"
    and fresh: "\<forall>v\<in>set (getValues inp). m_target st v = None"
  shows "\<exists>evs. trace st' = trace st @ evs \<and> allocated evs = owned st' (getValues inp)"
proof -
  from run obtain ep k s1 y s2 where
    a: "resolveEntryPoint debug drv module inp st = (Inr (ep, k), s1)"
    and b: "addValues drv s1 = (Inr y, s2)"
    and c: "roundTrip debug drv inp k ep s2 = (Inr (), st')"
    unfolding stages_def by (auto simp: seq_Inr split: prod.splits)
  from quiet_allocated [OF resolveEntryPoint_emits resolveEntryPoint_same a] obtain evs1 where
    e1: "trace s1 = trace st @ evs1" "allocated evs1 = []" "m_target s1 = m_target st" by blast
  from quiet_allocated [OF addValues_emits addValues_same b] obtain evs2 where
    e2: "trace s2 = trace s1 @ evs2" "allocated evs2 = []" "m_target s2 = m_target s1" by blast
  from fresh e1(3) e2(3) have "\<forall>v\<in>set (getValues inp). m_target s2 v = None" by simp
  from roundTrip_allocated [OF c d this] obtain evs3 where
    "trace st' = trace s2 @ evs3" "allocated evs3 = owned st' (getValues inp)" by blast
  with e1 e2 show ?thesis
    by (intro exI [of _ "evs1 @ evs2 @ evs3"]) simp
qed

lemma beforeRelease_Inr:
  assumes run: "beforeRelease debug rt drv inp st = (Inr module, s1)"
    and d: "distinct (getValues inp)"
    and fresh: "\<forall>v\<in>set (getValues inp). m_target st v = None"
  shows "\<exists>s0 pre. stages debug drv module inp s0 = (Inr (), s1)
           \<and> trace s1 = trace st @ pre
           \<and> allocated pre = owned s1 (getValues inp)"
proof -
  from run obtain u sa sb sc y where
    a: "ScopeCUDAContext_init debug rt drv 0 st = (Inr u, sa)"
    and b: "checked debug drv (cuModuleLoadData (codeBegin inp)) sa = (Inr module, sb)"
    and c: "stages debug drv module inp sb = (Inr y, s1)"
    unfolding beforeRelease_def
    by (auto simp: seq_Inr throw_def ret_def split: if_splits)
  from c have c': "stages debug drv module inp sb = (Inr (), s1)" by simp
  have l: "follows (emitsOnly quiet) (checked debug drv (cuModuleLoadData (codeBegin inp)))"
    by (rule emits_checked) simp
  from quiet_allocated [OF init_emits init_same a] obtain evs1 where
    e1: "trace sa = trace st @ evs1" "allocated evs1 = []" "m_target sa = m_target st" by blast
  from quiet_allocated [OF l same_checked b] obtain evs2 where
    e2: "trace sb = trace sa @ evs2" "allocated evs2 = []" "m_target sb = m_target sa" by blast
  from fresh e1(3) e2(3) have "\<forall>v\<in>set (getValues inp). m_target sb v = None" by simp
  from stages_allocated [OF c' d this] obtain evs3 where
    "trace s1 = trace sb @ evs3" "allocated evs3 = owned s1 (getValues inp)" by blast
  with e1 e2 c' show ?thesis
    by (intro exI [of _ sb] exI [of _ "evs1 @ evs2 @ evs3"]) simp
qed

lemma fromRelease_effect:
  assumes run: "fromRelease debug drv inp module st = (r, st')"
    and d: "distinct (getValues inp)"
  shows "\<exists>fs post. trace st' = trace st @ (releaseValueTargets, (0, 0)) # fs @ post
           \<and> (\<forall>x\<in>set fs. isFree x)
           \<and> (\<forall>x\<in>set post. \<not> isRelease x \<and> \<not> isFree x \<and> \<not> isMalloc x \<and> \<not> stageFailure x)
           \<and> (r = Inr () \<or> (\<exists>e\<in>set post. unloadFailure e)
                \<or> debug \<and> r = Inl AssertFailed \<and> (\<exists>e\<in>set fs. freeFailure e))
           \<and> (\<forall>e. r = Inl e \<longrightarrow> isStatus e \<longrightarrow> (\<exists>x\<in>set post. unloadFailure x))
           \<and> (r = Inr () \<longrightarrow> freed fs = owned st (getValues inp)
                 \<and> (\<forall>v\<in>set (getValues inp). m_target st' v = None))"
proof -
  let ?s0 = "st\<lparr>trace := trace st @ [(releaseValueTargets, (0, 0))]\<rparr>"
  from run show ?thesis
    unfolding fromRelease_def
  proof (cases rule: seqE)
    case (stop e)
    then have rel: "releaseTargets debug drv (getValues inp) ?s0 = (Inl e, st')"
      by (simp add: bindSet_releaseValueTargets_def seq_def mark_def)
    from followsD [OF releaseTargets_emits rel] obtain fs where
      fs: "trace st' = trace ?s0 @ fs" "\<forall>x\<in>set fs. isFree x" by (auto simp: emitsOnly_def)
    from releaseTargets_frees [OF rel d] fs(1)
    have "debug \<and> e = AssertFailed \<and> (\<exists>x\<in>set fs. freeFailure x)" by auto
    with fs stop(2) show ?thesis
      by (intro exI [of _ fs] exI [of _ "[]"]) auto
  next
    case (go x s1)
    then have rel: "releaseTargets debug drv (getValues inp) ?s0 = (Inr (), s1)"
      by (simp add: bindSet_releaseValueTargets_def seq_def mark_def)
    from followsD [OF releaseTargets_emits rel] obtain fs where
      fs: "trace s1 = trace ?s0 @ fs" "\<forall>x\<in>set fs. isFree x" by (auto simp: emitsOnly_def)
    from releaseTargets_frees [OF rel d] fs(1)
    have fr: "freed fs = owned ?s0 (getValues inp)" "\<forall>v\<in>set (getValues inp). m_target s1 v = None"
      by auto
    have o: "owned ?s0 (getValues inp) = owned st (getValues inp)"
      by (intro owned_cong) simp
    let ?c = "cuModuleUnload module"
    let ?rep = "drv (trace s1) ?c"
    from go(2) have u: "trace st' = trace s1 @ [(?c, ?rep)]" "m_target st' = m_target s1"
      and res: "r = Inr () \<or> isError (fst ?rep)"
      by (auto simp: checked_def seq_def doCall_def Let_def lift_def ret_def
            SLANG_CUDA_RETURN_ON_FAIL_def split: prod.splits sum.splits if_splits)
    have uf: "isError (fst ?rep) \<Longrightarrow> unloadFailure (?c, ?rep)" by (cases ?rep) simp
    from fs u fr o res uf show ?thesis
      by (intro exI [of _ fs] exI [of _ "[(?c, ?rep)]"]) auto
  qed
qed

lemma init_context:
  "follows (emitsOnly isContextCall) (ScopeCUDAContext_init debug rt drv flags)"
proof -
  have a: "follows (emitsOnly isContextCall) (initCuda debug drv)"
    by (auto simp: follows_def emitsOnly_def initCuda_def Let_def split: option.splits)
  have b: "follows (emitsOnly isContextCall) (destroyContext drv)"
    by (auto simp: follows_def emitsOnly_def destroyContext_def doCall_def Let_def split: if_splits)
  have c: "follows (emitsOnly isContextCall) (createContext drv flags device)" for device
    by (auto simp: follows_def emitsOnly_def createContext_def Let_def split: if_splits)
  show ?thesis
    unfolding ScopeCUDAContext_init_def
    by (intro emits_seq emits_lift emits_checked a b c) simp
qed

lemma resolveEntryPoint_fails: "failsAtCall (resolveEntryPoint debug drv module inp)"
  unfolding resolveEntryPoint_def
  by (intro fails_seq fails_assert fails_case_option fails_throw fails_ret fails_checked
        emits_lift follows_case_option emits_throw emits_ret checked_extends)
     auto

lemma addValues_fails: "failsAtCall (addValues drv)"
  unfolding failsAtCall_def
proof (intro allI impI)
  fix st e st' assume a: "addValues drv st = (Inl e, st')"
  let ?rep = "drv (trace st) addBindSetValues"
  from a have t: "trace st' = trace st @ [(addBindSetValues, ?rep)]" and ko: "fst ?rep < 0"
    by (auto simp: addValues_def seq_def doCall_def Let_def throw_def ret_def
          split: prod.splits sum.splits if_splits)
  from ko have "stageFailure (addBindSetValues, ?rep)" by (cases ?rep) simp
  with t show "\<exists>evs. trace st' = trace st @ evs \<and> (\<exists>x\<in>set evs. stageFailure x)"
    by (intro exI [of _ "[(addBindSetValues, ?rep)]"]) simp
qed

lemma stages_fails: "failsAtCall (stages debug drv module inp)"
  unfolding stages_def
  by (intro fails_seq fails_case_prod resolveEntryPoint_fails addValues_fails roundTrip_fails
        resolveEntryPoint_emits [THEN extends] addValues_emits [THEN extends])

lemma roundTrip_extends: "follows (emitsOnly (\<lambda>_. True)) (roundTrip debug drv inp k ep)"
  unfolding roundTrip_def
  by (intro emits_seq createResources_emits [THEN extends] roundTrip_rest_allocates [THEN extends])

lemma stages_extends: "follows (emitsOnly (\<lambda>_. True)) (stages debug drv module inp)"
  unfolding stages_def
  by (intro emits_seq follows_case_prod resolveEntryPoint_emits [THEN extends]
        addValues_emits [THEN extends] roundTrip_extends)

lemma beforeRelease_status:
  assumes run: "beforeRelease debug rt drv inp st = (Inl e, st')" and s: "isStatus e"
  shows "\<exists>evs. trace st' = trace st @ evs
           \<and> ((\<exists>x\<in>set evs. stageFailure x) \<or> (\<forall>x\<in>set evs. isContextCall x))"
proof -
  let ?rest = "seq (checked debug drv (cuModuleLoadData (codeBegin inp))) (\<lambda>module.
                 seq (stages debug drv module inp) (\<lambda>_. ret module))"
  have rest: "failsAtCall ?rest"
    by (intro fails_seq fails_checked fails_ret stages_fails checked_extends stages_extends)
       auto
  from run show ?thesis
    unfolding beforeRelease_def
  proof (cases rule: seqE)
    case (stop e')
    from followsD [OF init_context stop(1)] show ?thesis by (auto simp: emitsOnly_def)
  next
    case (go x s1)
    from followsD [OF init_context go(1)] obtain evs1 where
      e1: "trace s1 = trace st @ evs1" "\<forall>x\<in>set evs1. isContextCall x"
      by (auto simp: emitsOnly_def)
    show ?thesis
    proof (cases "kernelDescIndex inp < 0")
      case True
      with go(2) have "st' = s1" by (simp add: throw_def)
      with e1 show ?thesis by blast
    next
      case False
      with go(2) have "?rest s1 = (Inl e, st')" by simp
      from failsD [OF rest this s] obtain evs2 where
        "trace st' = trace s1 @ evs2" "\<exists>x\<in>set evs2. stageFailure x" by blast
      with e1 show ?thesis by (intro exI [of _ "evs1 @ evs2"]) auto
    qed
  qed
qed

lemma free_not_malloc: "isFree x \<Longrightarrow> \<not> isMalloc x"
  by (cases x rule: isFree.cases) simp_all

lemma executeBody_release:
  assumes run: "executeBody debug rt drv inp st = (r, st')"
    and d: "distinct (getValues inp)"
    and fresh: "\<forall>v\<in>set (getValues inp). m_target st v = None"
  shows "\<exists>evs. trace st' = trace st @ evs
     \<and> ((\<exists>e. r = Inl e \<and> isStatus e) \<longrightarrow>
          (\<exists>x\<in>set evs. stageFailure x \<or> unloadFailure x) \<or> (\<forall>x\<in>set evs. isContextCall x))
     \<and> ((\<exists>x\<in>set evs. isRelease x \<or> isFree x) \<longrightarrow>
          (\<exists>pre fs post module s0 s1.
              evs = pre @ (releaseValueTargets, (0, 0)) # fs @ post
            \<and> stages debug drv module inp s0 = (Inr (), s1) \<and> trace s1 = trace st @ pre
            \<and> (\<forall>x\<in>set pre. \<not> stageFailure x \<and> \<not> isRelease x \<and> \<not> isFree x)
            \<and> (\<forall>x\<in>set fs. isFree x)
            \<and> (\<forall>x\<in>set post. \<not> isRelease x \<and> \<not> isFree x \<and> \<not> isMalloc x \<and> \<not> stageFailure x)
            \<and> (r = Inr () \<or> (\<exists>e\<in>set post. unloadFailure e)
                 \<or> debug \<and> r = Inl AssertFailed \<and> (\<exists>e\<in>set fs. freeFailure e))))
     \<and> (r = Inr () \<longrightarrow> freed evs = allocated evs
           \<and> (\<forall>v\<in>set (getValues inp). m_target st' v = None))"
proof -
  from run have "seq (beforeRelease debug rt drv inp) (fromRelease debug drv inp) st = (r, st')"
    by (simp add: executeBody_split)
  then show ?thesis
  proof (cases rule: seqE)
    case (stop e)
    from freshlyD [OF beforeRelease_freshly [OF d] stop(1) fresh] obtain evs where
      evs: "trace st' = trace st @ evs" "\<forall>x\<in>set evs. \<not> isRelease x \<and> \<not> isFree x"
      by (auto simp: emitsOnly_def)
    have "(\<exists>x\<in>set evs. stageFailure x) \<or> (\<forall>x\<in>set evs. isContextCall x)" if "isStatus e"
      using beforeRelease_status [OF stop(1) that] evs(1) by auto
    then have B: "(\<exists>e'. r = Inl e' \<and> isStatus e') \<longrightarrow>
          (\<exists>x\<in>set evs. stageFailure x \<or> unloadFailure x) \<or> (\<forall>x\<in>set evs. isContextCall x)"
      using stop(2) by auto
    from evs(2) have C: "(\<exists>x\<in>set evs. isRelease x \<or> isFree x) \<longrightarrow> Q" for Q by blast
    from stop(2) have D: "r = Inr () \<longrightarrow> Q" for Q by simp
    show ?thesis
      by (rule exI [of _ evs]) (rule conjI [OF evs(1) conjI [OF B conjI [OF C D]]])
  next
    case (go module s1)
    from beforeRelease_Inr [OF go(1) d fresh] obtain s0 pre where
      pre: "stages debug drv module inp s0 = (Inr (), s1)" "trace s1 = trace st @ pre"
           "allocated pre = owned s1 (getValues inp)" by blast
    from stopsD [OF beforeRelease_stops go(1)] pre(2)
    have nf: "\<forall>x\<in>set pre. \<not> stageFailure x"
      unfolding haltedAt_def reportsFailure_def by auto
    from freshlyD [OF beforeRelease_freshly [OF d] go(1) fresh] pre(2)
    have nr: "\<forall>x\<in>set pre. \<not> isRelease x \<and> \<not> isFree x"
      by (auto simp: emitsOnly_def)
    from fromRelease_effect [OF go(2) d] obtain fs post where
      fr: "trace st' = trace s1 @ (releaseValueTargets, (0, 0)) # fs @ post"
          "\<forall>x\<in>set fs. isFree x"
          "\<forall>x\<in>set post. \<not> isRelease x \<and> \<not> isFree x \<and> \<not> isMalloc x \<and> \<not> stageFailure x"
          "r = Inr () \<or> (\<exists>e\<in>set post. unloadFailure e)
             \<or> debug \<and> r = Inl AssertFailed \<and> (\<exists>e\<in>set fs. freeFailure e)"
          "\<forall>e. r = Inl e \<longrightarrow> isStatus e \<longrightarrow> (\<exists>x\<in>set post. unloadFailure x)"
          "r = Inr () \<longrightarrow> freed fs = owned s1 (getValues inp)
                 \<and> (\<forall>v\<in>set (getValues inp). m_target st' v = None)"
      by (elim exE conjE)
    let ?evs = "pre @ (releaseValueTargets, (0, 0)) # fs @ post"
    have t: "trace st' = trace st @ ?evs" using pre(2) fr(1) by simp
    have a: "(\<exists>x\<in>set ?evs. stageFailure x \<or> unloadFailure x)" if "\<exists>e. r = Inl e \<and> isStatus e"
      using fr(5) that by auto
    have c: "\<exists>pre' fs' post' module s0 s1.
              ?evs = pre' @ (releaseValueTargets, (0, 0)) # fs' @ post'
            \<and> stages debug drv module inp s0 = (Inr (), s1) \<and> trace s1 = trace st @ pre'
            \<and> (\<forall>x\<in>set pre'. \<not> stageFailure x \<and> \<not> isRelease x \<and> \<not> isFree x)
            \<and> (\<forall>x\<in>set fs'. isFree x)
            \<and> (\<forall>x\<in>set post'. \<not> isRelease x \<and> \<not> isFree x \<and> \<not> isMalloc x \<and> \<not> stageFailure x)
            \<and> (r = Inr () \<or> (\<exists>e\<in>set post'. unloadFailure e)
                 \<or> debug \<and> r = Inl AssertFailed \<and> (\<exists>e\<in>set fs'. freeFailure e))"
      using pre(1,2) nf nr fr(2,3,4)
      by (intro exI [of _ pre] exI [of _ fs] exI [of _ post] exI [of _ module] exI [of _ s0]
            exI [of _ s1]) simp
    have fp: "freed pre = []" using nr by (intro freed_none) simp
    have fo: "freed post = []" using fr(3) by (intro freed_none) simp
    have ao: "allocated post = []" using fr(3) by (intro allocated_none) simp
    have af: "allocated fs = []" using fr(2) by (intro allocated_none) (simp add: free_not_malloc)
    have m: "freed ((releaseValueTargets, (0, 0)) # xs) = freed xs"
      "allocated ((releaseValueTargets, (0, 0)) # xs) = allocated xs" for xs
      by (simp_all add: freed_def allocated_def List.map_filter_def)
    have dd: "freed ?evs = allocated ?evs" if "r = Inr ()"
      using that fr(6) pre(3) by (simp add: fp fo ao af m)
    have B: "(\<exists>e. r = Inl e \<and> isStatus e) \<longrightarrow>
          (\<exists>x\<in>set ?evs. stageFailure x \<or> unloadFailure x) \<or> (\<forall>x\<in>set ?evs. isContextCall x)"
      using a by blast
    have D: "r = Inr () \<longrightarrow> freed ?evs = allocated ?evs
           \<and> (\<forall>v\<in>set (getValues inp). m_target st' v = None)"
      using dd fr(6) by blast
    show ?thesis
      by (rule exI [of _ ?evs]) (rule conjI [OF t conjI [OF B conjI [OF impI [OF c] D]]])
  qed
qed

lemma dtor_targets: "m_target (ScopeCUDAContext_dtor drv st) = m_target st"
  by (simp add: ScopeCUDAContext_dtor_def doCall_def Let_def)

subsection \<open>With assertions, no failure status after the first allocation\<close>

lemma neverD: "neverStatus m \<Longrightarrow> m st = (Inl e, st') \<Longrightarrow> \<not> isStatus e"
  unfolding neverStatus_def by blast

lemma never_seq: "neverStatus m \<Longrightarrow> (\<And>x. neverStatus (f x)) \<Longrightarrow> neverStatus (seq m f)"
  unfolding neverStatus_def by (blast elim: seqE)

lemma never_ret: "neverStatus (ret x)"
  by (simp add: neverStatus_def ret_def)

lemma never_throw: "\<not> isStatus e \<Longrightarrow> neverStatus (throw e)"
  by (auto simp: neverStatus_def throw_def)

lemma never_assert: "neverStatus (lift (SLANG_ASSERT debug c))"
  by (auto simp: neverStatus_def lift_def SLANG_ASSERT_def split: if_splits)

lemma never_checked: "neverStatus (checked True drv c)"
  by (auto simp: neverStatus_def checked_def seq_def doCall_def Let_def lift_def ret_def
        SLANG_CUDA_RETURN_ON_FAIL_def SLANG_ASSERT_def split: prod.splits sum.splits if_splits)

lemma never_if: "neverStatus a \<Longrightarrow> neverStatus b \<Longrightarrow> neverStatus (if c then a else b)"
  by simp

lemma never_case_option:
  "neverStatus a \<Longrightarrow> (\<And>y. neverStatus (b y))
     \<Longrightarrow> neverStatus (case x of None \<Rightarrow> a | Some y \<Rightarrow> b y)"
  by (cases x) simp_all

lemma never_call: "neverStatus (seq (checked True drv c) (\<lambda>_. ret ()))"
  by (intro never_seq never_checked never_ret)

lemma assignTarget_never: "neverStatus (assignTarget debug drv v t)"
  unfolding neverStatus_def by (blast dest: assignTarget_Inl)

lemma createResource_never: "neverStatus (createResource True drv inp v)"
  unfolding createResource_cases allocateTarget_def
  by (intro never_if never_case_option never_seq never_checked assignTarget_never never_ret
        never_assert)

lemma createResources_never: "neverStatus (createResources True drv inp vs)"
  by (induction vs) (auto intro!: never_ret never_seq createResource_never)

lemma setBindings_never: "neverStatus (setBindings bs)"
  unfolding neverStatus_def by (blast dest: setBindings_Inl)

lemma uploadValue_never: "neverStatus (uploadValue True drv inp v)"
  unfolding neverStatus_def uploadValue_def Let_def
  by (auto split: if_splits dest: neverD [OF never_call])

lemma upload_never: "neverStatus (upload True drv inp vs)"
  by (induction vs) (auto intro!: never_ret never_seq uploadValue_never)

lemma launchKernel_never: "neverStatus (launchKernel True drv inp k ep)"
proof -
  have c: "neverStatus (seq (checked True drv c)
             (\<lambda>_. seq (checked True drv cudaDeviceSynchronize) (\<lambda>_. ret ())))" for c
    by (intro never_seq never_checked never_ret)
  show ?thesis
    unfolding neverStatus_def launchKernel_unfold
    by (intro allI impI) (erule neverD [OF c])
qed

lemma launch_never: "neverStatus (launch True drv inp k ep)"
  unfolding launch_def by (intro never_seq never_checked launchKernel_never)

lemma copyBack_never: "neverStatus (copyBack True drv inp i)"
  unfolding neverStatus_def copyBack_cases
  by (intro allI impI)
     (auto split: if_splits option.splits simp: ret_def throw_def dest: neverD [OF never_call])

lemma download_never: "neverStatus (download True drv inp is)"
  by (induction "is") (auto intro!: never_ret never_seq copyBack_never)

lemma roundTrip_never: "neverStatus (roundTrip True drv inp k ep)"
  unfolding roundTrip_def
  by (intro never_seq never_if never_ret never_checked createResources_never setBindings_never
        upload_never launch_never download_never)

lemma beforeD:
  "statusBeforeAllocating m \<Longrightarrow> m st = (Inl e, st') \<Longrightarrow> isStatus e
     \<Longrightarrow> \<exists>evs. trace st' = trace st @ evs \<and> (\<forall>x\<in>set evs. \<not> isMalloc x)"
  unfolding statusBeforeAllocating_def by (elim allE impE) assumption+

lemma before_never: "neverStatus m \<Longrightarrow> statusBeforeAllocating m"
  unfolding statusBeforeAllocating_def by (blast dest: neverD)

lemma before_quiet: "follows (emitsOnly quiet) m \<Longrightarrow> statusBeforeAllocating m"
  unfolding statusBeforeAllocating_def
  by (auto dest!: followsD simp: emitsOnly_def quiet_def)

lemma before_seq:
  assumes m: "follows (emitsOnly quiet) m" and f: "\<And>x. statusBeforeAllocating (f x)"
  shows "statusBeforeAllocating (seq m f)"
  unfolding statusBeforeAllocating_def
proof (intro allI impI)
  fix st e st' assume run: "seq m f st = (Inl e, st')" and s: "isStatus e"
  from run show "\<exists>evs. trace st' = trace st @ evs \<and> (\<forall>x\<in>set evs. \<not> isMalloc x)"
  proof (cases rule: seqE)
    case (stop e')
    from followsD [OF m stop(1)] show ?thesis by (auto simp: emitsOnly_def quiet_def)
  next
    case (go x s1)
    from followsD [OF m go(1)] obtain evs1 where e1: "trace s1 = trace st @ evs1"
      "\<forall>x\<in>set evs1. \<not> isMalloc x" by (auto simp: emitsOnly_def quiet_def)
    from beforeD [OF f go(2) s] obtain evs2 where e2: "trace st' = trace s1 @ evs2"
      "\<forall>x\<in>set evs2. \<not> isMalloc x" by blast
    with e1 show ?thesis by (intro exI [of _ "evs1 @ evs2"]) auto
  qed
qed

lemma before_if:
  "statusBeforeAllocating a \<Longrightarrow> statusBeforeAllocating b
     \<Longrightarrow> statusBeforeAllocating (if c then a else b)"
  by simp

lemma before_case_prod:
  "(\<And>a b. statusBeforeAllocating (f a b))
     \<Longrightarrow> statusBeforeAllocating (case x of (a, b) \<Rightarrow> f a b)"
  by (cases x) simp

lemma stages_before: "statusBeforeAllocating (stages True drv module inp)"
  unfolding stages_def
  by (intro before_seq before_case_prod resolveEntryPoint_emits addValues_emits
        before_never [OF roundTrip_never])

lemma beforeRelease_before: "statusBeforeAllocating (beforeRelease True rt drv inp)"
proof -
  have t: "statusBeforeAllocating (throw SLANG_FAIL :: nat exec)"
    by (intro before_quiet emits_throw)
  have l: "follows (emitsOnly quiet) (checked True drv (cuModuleLoadData (codeBegin inp)))"
    by (rule emits_checked) simp
  have s: "statusBeforeAllocating (seq (stages True drv module inp) (\<lambda>_. ret module))"
    for module
    unfolding statusBeforeAllocating_def
  proof (intro allI impI)
    fix st e st'
    assume "seq (stages True drv module inp) (\<lambda>_. ret module) st = (Inl e, st')"
      and e: "isStatus e"
    then have "stages True drv module inp st = (Inl e, st')"
      by (auto elim!: seqE simp: ret_def)
    from beforeD [OF stages_before this e]
    show "\<exists>evs. trace st' = trace st @ evs \<and> (\<forall>x\<in>set evs. \<not> isMalloc x)" .
  qed
  show ?thesis
    unfolding beforeRelease_def by (intro before_seq before_if init_emits t l s)
qed

lemma executeBody_debug:
  assumes run: "executeBody True rt drv inp st = (r, st')"
    and d: "distinct (getValues inp)"
    and fresh: "\<forall>v\<in>set (getValues inp). m_target st v = None"
  shows "\<exists>evs. trace st' = trace st @ evs
     \<and> ((\<exists>x\<in>set evs. isMalloc x) \<and> (\<exists>x\<in>set evs. stageFailure x) \<longrightarrow> r = Inl AssertFailed)"
proof -
  from run have "seq (beforeRelease True rt drv inp) (fromRelease True drv inp) st = (r, st')"
    by (simp add: executeBody_split)
  then show ?thesis
  proof (cases rule: seqE)
    case (stop e)
    from stopsD [OF beforeRelease_stops stop(1)] obtain evs where
      evs: "trace st' = trace st @ evs" "(\<exists>x\<in>set evs. stageFailure x) \<longrightarrow> failureCode True e"
      unfolding haltedAt_def reportsFailure_def by auto
    have "e = AssertFailed" if m: "\<exists>x\<in>set evs. isMalloc x" and f: "\<exists>x\<in>set evs. stageFailure x"
    proof -
      have "\<not> isStatus e"
      proof
        assume "isStatus e"
        from beforeD [OF beforeRelease_before stop(1) this] evs(1) m show False by auto
      qed
      with evs(2) f show ?thesis by (cases e) simp_all
    qed
    with evs(1) stop(2) show ?thesis by (intro exI [of _ evs]) blast
  next
    case (go module s1)
    from stopsD [OF beforeRelease_stops go(1)] obtain pre where
      pre: "trace s1 = trace st @ pre" "\<forall>x\<in>set pre. \<not> stageFailure x"
      unfolding haltedAt_def reportsFailure_def by auto
    from fromRelease_trace [OF go(2)] obtain evs2 where
      evs2: "trace st' = trace s1 @ (releaseValueTargets, (0, 0)) # evs2"
        "\<forall>e\<in>set evs2. \<not> isRelease e \<and> \<not> stageFailure e"
      by (elim exE conjE)
    let ?evs = "pre @ (releaseValueTargets, (0, 0)) # evs2"
    have "\<forall>x\<in>set ?evs. \<not> stageFailure x" using pre(2) evs2(2) by auto
    moreover have "trace st' = trace st @ ?evs" using pre(1) evs2(1) by simp
    ultimately show ?thesis by (intro exI [of _ ?evs]) blast
  qed
qed

subsection \<open>Failure and release in \<open>execute\<close>\<close>

text \<open>
  C2, as stated, fails in two ways. In a build with assertions, on \<open>inpTiny\<close> with the
  device synchronization failing after the four allocations, \<open>execute\<close> does not return to
  its caller: the failed call is its last call and the run stops at the assertion of
  \<^verbatim>\<open>SLANG_CUDA_RETURN_ON_FAIL\<close>. In a build without assertions, with \<^verbatim>\<open>cuModuleUnload\<close>
  failing, \<open>execute\<close> returns \<^verbatim>\<open>SLANG_FAIL\<close> although the release has run and has freed
  the four allocations: the release is not confined to the runs that succeed.
\<close>

theorem execute_failure_counterexample:
  "distinct (getValues inpTiny)
   \<and> fst (execute True rtTie drvFailSync inpTiny st0) = Inl AssertFailed
   \<and> map fst (filter isMalloc (trace (snd (execute True rtTie drvFailSync inpTiny st0))))
       = [cudaMalloc 16, cudaMalloc 8, cudaMalloc 32, cudaMalloc 32]
   \<and> last (trace (snd (execute True rtTie drvFailSync inpTiny st0)))
       = (cudaDeviceSynchronize, (700, 0))
   \<and> fst (execute False rtTie drvFailUnload inpTiny st0) = Inl SLANG_FAIL
   \<and> length (filter isRelease (trace (snd (execute False rtTie drvFailUnload inpTiny st0)))) = 1
   \<and> freed (trace (snd (execute False rtTie drvFailUnload inpTiny st0)))
       = [5632, 5888, 6144, 6400]"
  by (simp add: run_defs input_defs rtTie_selected freed_def List.map_filter_def)

text \<open>
  C2, amended. Take a run of \<open>execute\<close> on distinct Values of which none holds a target
  at the start, and let \<open>evs\<close> be its calls.

  \<^item> Whenever a call of a pipeline stage fails, it is the last call of the pipeline: no
    call before it failed and only the destruction of the context by the destructor of
    \<open>ScopeCUDAContext\<close> can follow it; the run contains neither the release of the value
    targets nor any \<^verbatim>\<open>cudaFree\<close>, so what was allocated before the failure stays
    allocated; the result reports the failure; in a build without assertions \<open>execute\<close>
    returns it to its caller; in a build with assertions, once a \<^verbatim>\<open>cudaMalloc\<close> has been
    called, the run stops at an assertion and \<open>execute\<close> does not return.
  \<^item> Every failure status that \<open>execute\<close> returns comes from a failed call, of a stage
    or of \<^verbatim>\<open>cuModuleUnload\<close>, unless the run has made no call but those of the context
    (no device eligible, no compute kernel): after the module load, and so after any
    allocation, no stage fails with a status without a failed call.
  \<^item> The release of the value targets and every \<^verbatim>\<open>cudaFree\<close> come only after the block
    of \<^verbatim>\<open>_compute\<close> that precedes the release has returned success, with no failed call
    before them; after the release \<open>execute\<close> succeeds unless \<^verbatim>\<open>cuModuleUnload\<close> fails
    or, in a build with assertions, a \<^verbatim>\<open>cudaFree\<close> fails.
  \<^item> When \<open>execute\<close> succeeds, the release has run exactly once, the \<^verbatim>\<open>cudaFree\<close> calls
    are, in order, those of the pointers that the successful \<^verbatim>\<open>cudaMalloc\<close> calls of the
    run returned, no Value holds a target at the end, and no call of a stage has failed.
  \<^item> In no run does the release run more than once.
\<close>

theorem execute_failure_and_release:
  assumes run: "execute debug rt drv inp st = (r, st')"
    and d: "distinct (getValues inp)"
    and fresh: "\<forall>v\<in>set (getValues inp). m_target st v = None"
  shows "\<exists>evs. trace st' = trace st @ evs
     \<and> (\<forall>e\<in>set evs. stageFailure e \<longrightarrow>
          reportsFailure debug r \<and> (\<not> debug \<longrightarrow> returned r)
        \<and> (debug \<and> (\<exists>x\<in>set evs. isMalloc x) \<longrightarrow> r = Inl AssertFailed)
        \<and> (\<exists>pre post. evs = pre @ e # post \<and> (\<forall>x\<in>set pre. \<not> stageFailure x)
              \<and> length post \<le> 1 \<and> (\<forall>x\<in>set post. \<exists>ctx rep. x = (cuCtxDestroy ctx, rep)))
        \<and> (\<forall>x\<in>set evs. \<not> isRelease x \<and> \<not> isFree x))
     \<and> ((\<exists>e. r = Inl e \<and> isStatus e) \<longrightarrow>
          (\<exists>x\<in>set evs. stageFailure x \<or> unloadFailure x) \<or> (\<forall>x\<in>set evs. isContextCall x))
     \<and> ((\<exists>x\<in>set evs. isRelease x \<or> isFree x) \<longrightarrow>
          (\<exists>pre fs post module s0 s1.
              evs = pre @ (releaseValueTargets, (0, 0)) # fs @ post
            \<and> stages debug drv module inp s0 = (Inr (), s1) \<and> trace s1 = trace st @ pre
            \<and> (\<forall>x\<in>set pre. \<not> stageFailure x \<and> \<not> isRelease x \<and> \<not> isFree x)
            \<and> (\<forall>x\<in>set fs. isFree x)
            \<and> (\<forall>x\<in>set post. \<not> isRelease x \<and> \<not> isFree x \<and> \<not> isMalloc x \<and> \<not> stageFailure x)
            \<and> (r = Inr () \<or> (\<exists>e\<in>set post. unloadFailure e)
                 \<or> debug \<and> r = Inl AssertFailed \<and> (\<exists>e\<in>set fs. freeFailure e))))
     \<and> (r = Inr () \<longrightarrow> length (filter isRelease evs) = 1 \<and> freed evs = allocated evs
           \<and> (\<forall>v\<in>set (getValues inp). m_target st' v = None)
           \<and> (\<forall>x\<in>set evs. \<not> stageFailure x))
     \<and> length (filter isRelease evs) \<le> 1"
proof -
  let ?st = "st\<lparr>m_context := 0\<rparr>"
  obtain s1 where body: "executeBody debug rt drv inp ?st = (r, s1)"
    and st': "st' = (if returned r then ScopeCUDAContext_dtor drv s1 else s1)"
    using run by (auto simp: execute_def split: prod.splits)
  from fresh have fresh': "\<forall>v\<in>set (getValues inp). m_target ?st v = None" by simp
  from executeBody_shape [OF body d fresh'] obtain evs where
    evs: "trace s1 = trace st @ evs"
      "\<forall>e\<in>set (butlast evs). \<not> stageFailure e"
      "(\<exists>e\<in>set evs. stageFailure e) \<longrightarrow>
          reportsFailure debug r \<and> (\<forall>x\<in>set evs. \<not> isRelease x \<and> \<not> isFree x)"
      "length (filter isRelease evs) \<le> 1"
      "r = Inr () \<longrightarrow> length (filter isRelease evs) = 1"
    by (elim exE conjE) simp
  from executeBody_release [OF body d fresh'] obtain evs' where
    evs': "trace s1 = trace ?st @ evs'"
    and B0: "(\<exists>e. r = Inl e \<and> isStatus e) \<longrightarrow>
          (\<exists>x\<in>set evs'. stageFailure x \<or> unloadFailure x) \<or> (\<forall>x\<in>set evs'. isContextCall x)"
    and C0: "(\<exists>x\<in>set evs'. isRelease x \<or> isFree x) \<longrightarrow>
          (\<exists>pre fs post module s0 s1.
              evs' = pre @ (releaseValueTargets, (0, 0)) # fs @ post
            \<and> stages debug drv module inp s0 = (Inr (), s1) \<and> trace s1 = trace ?st @ pre
            \<and> (\<forall>x\<in>set pre. \<not> stageFailure x \<and> \<not> isRelease x \<and> \<not> isFree x)
            \<and> (\<forall>x\<in>set fs. isFree x)
            \<and> (\<forall>x\<in>set post. \<not> isRelease x \<and> \<not> isFree x \<and> \<not> isMalloc x \<and> \<not> stageFailure x)
            \<and> (r = Inr () \<or> (\<exists>e\<in>set post. unloadFailure e)
                 \<or> debug \<and> r = Inl AssertFailed \<and> (\<exists>e\<in>set fs. freeFailure e)))"
    and D0: "r = Inr () \<longrightarrow> freed evs' = allocated evs'
           \<and> (\<forall>v\<in>set (getValues inp). m_target s1 v = None)"
    by (elim exE conjE)
  from evs(1) evs' have same: "evs' = evs" by simp
  have A2: "r = Inl AssertFailed"
    if "debug" "\<exists>x\<in>set evs. isMalloc x" "\<exists>x\<in>set evs. stageFailure x"
  proof -
    from body that(1) have "executeBody True rt drv inp ?st = (r, s1)" by simp
    from executeBody_debug [OF this d fresh'] evs(1) that(2,3) show ?thesis by auto
  qed
  obtain post where post: "trace st' = trace s1 @ post" "length post \<le> 1"
      "\<forall>x\<in>set post. \<exists>ctx rep. x = (cuCtxDestroy ctx, rep)"
  proof (cases "returned r")
    case True
    with st' dtor_trace [of drv s1] that show ?thesis by auto
  next
    case False
    with st' that [of "[]"] show ?thesis by simp
  qed
  have quiet: "\<not> stageFailure x \<and> \<not> isRelease x \<and> \<not> isFree x \<and> \<not> isMalloc x
      \<and> \<not> unloadFailure x \<and> isContextCall x" if "x \<in> set post" for x
    using post(3) that by auto
  have targets: "m_target st' = m_target s1"
    using st' by (simp add: dtor_targets)
  let ?evs = "evs @ post"
  have fail: "reportsFailure debug r \<and> (\<not> debug \<longrightarrow> returned r)
        \<and> (debug \<and> (\<exists>x\<in>set ?evs. isMalloc x) \<longrightarrow> r = Inl AssertFailed)
        \<and> (\<exists>pre post'. ?evs = pre @ e # post' \<and> (\<forall>x\<in>set pre. \<not> stageFailure x)
              \<and> length post' \<le> 1 \<and> (\<forall>x\<in>set post'. \<exists>ctx rep. x = (cuCtxDestroy ctx, rep)))
        \<and> (\<forall>x\<in>set ?evs. \<not> isRelease x \<and> \<not> isFree x)"
    if e: "e \<in> set ?evs" and f: "stageFailure e" for e
  proof -
    from e f quiet [of e] have mem: "e \<in> set evs" by (cases "e \<in> set post") simp_all
    with f evs(2) have "e \<notin> set (butlast evs)" by blast
    with mem have split: "evs = butlast evs @ [e]" by (rule last_failure)
    from mem f evs(3) have rep: "reportsFailure debug r"
      and none: "\<forall>x\<in>set evs. \<not> isRelease x \<and> \<not> isFree x" by blast+
    from rep have "\<not> debug \<longrightarrow> returned r" by (auto dest: reportsFailure_returned)
    moreover from split have "?evs = butlast evs @ e # post"
      by (metis append_Cons append_Nil append_assoc)
    moreover from none quiet have "\<forall>x\<in>set ?evs. \<not> isRelease x \<and> \<not> isFree x" by auto
    moreover have "debug \<and> (\<exists>x\<in>set ?evs. isMalloc x) \<longrightarrow> r = Inl AssertFailed"
    proof (intro impI, elim conjE)
      assume dbg: debug and "\<exists>x\<in>set ?evs. isMalloc x"
      with quiet have "\<exists>x\<in>set evs. isMalloc x" by auto
      with dbg mem f show "r = Inl AssertFailed" by (intro A2) auto
    qed
    ultimately show ?thesis using rep evs(2) post(2,3) by blast
  qed
  have A: "\<forall>e\<in>set ?evs. stageFailure e \<longrightarrow>
          reportsFailure debug r \<and> (\<not> debug \<longrightarrow> returned r)
        \<and> (debug \<and> (\<exists>x\<in>set ?evs. isMalloc x) \<longrightarrow> r = Inl AssertFailed)
        \<and> (\<exists>pre post'. ?evs = pre @ e # post' \<and> (\<forall>x\<in>set pre. \<not> stageFailure x)
              \<and> length post' \<le> 1 \<and> (\<forall>x\<in>set post'. \<exists>ctx rep. x = (cuCtxDestroy ctx, rep)))
        \<and> (\<forall>x\<in>set ?evs. \<not> isRelease x \<and> \<not> isFree x)"
    using fail by blast
  have B: "(\<exists>e. r = Inl e \<and> isStatus e) \<longrightarrow>
          (\<exists>x\<in>set ?evs. stageFailure x \<or> unloadFailure x) \<or> (\<forall>x\<in>set ?evs. isContextCall x)"
  proof
    assume "\<exists>e. r = Inl e \<and> isStatus e"
    with B0 same have "(\<exists>x\<in>set evs. stageFailure x \<or> unloadFailure x)
        \<or> (\<forall>x\<in>set evs. isContextCall x)" by blast
    with quiet show "(\<exists>x\<in>set ?evs. stageFailure x \<or> unloadFailure x)
        \<or> (\<forall>x\<in>set ?evs. isContextCall x)" by auto
  qed
  have C: "(\<exists>x\<in>set ?evs. isRelease x \<or> isFree x) \<longrightarrow>
          (\<exists>pre fs post' module s0 s1.
              ?evs = pre @ (releaseValueTargets, (0, 0)) # fs @ post'
            \<and> stages debug drv module inp s0 = (Inr (), s1) \<and> trace s1 = trace st @ pre
            \<and> (\<forall>x\<in>set pre. \<not> stageFailure x \<and> \<not> isRelease x \<and> \<not> isFree x)
            \<and> (\<forall>x\<in>set fs. isFree x)
            \<and> (\<forall>x\<in>set post'. \<not> isRelease x \<and> \<not> isFree x \<and> \<not> isMalloc x \<and> \<not> stageFailure x)
            \<and> (r = Inr () \<or> (\<exists>e\<in>set post'. unloadFailure e)
                 \<or> debug \<and> r = Inl AssertFailed \<and> (\<exists>e\<in>set fs. freeFailure e)))"
  proof
    assume "\<exists>x\<in>set ?evs. isRelease x \<or> isFree x"
    with quiet have "\<exists>x\<in>set evs'. isRelease x \<or> isFree x" unfolding same by auto
    with C0 obtain pre fs pb module s0 sa where
      c: "evs' = pre @ (releaseValueTargets, (0, 0)) # fs @ pb"
         "stages debug drv module inp s0 = (Inr (), sa)" "trace sa = trace ?st @ pre"
         "\<forall>x\<in>set pre. \<not> stageFailure x \<and> \<not> isRelease x \<and> \<not> isFree x"
         "\<forall>x\<in>set fs. isFree x"
         "\<forall>x\<in>set pb. \<not> isRelease x \<and> \<not> isFree x \<and> \<not> isMalloc x \<and> \<not> stageFailure x"
         "r = Inr () \<or> (\<exists>e\<in>set pb. unloadFailure e)
                 \<or> debug \<and> r = Inl AssertFailed \<and> (\<exists>e\<in>set fs. freeFailure e)"
      by blast
    have 1: "?evs = pre @ (releaseValueTargets, (0, 0)) # fs @ (pb @ post)"
      using c(1) same by simp
    have 2: "\<forall>x\<in>set (pb @ post). \<not> isRelease x \<and> \<not> isFree x \<and> \<not> isMalloc x \<and> \<not> stageFailure x"
      using c(6) quiet by auto
    have 3: "r = Inr () \<or> (\<exists>e\<in>set (pb @ post). unloadFailure e)
                 \<or> debug \<and> r = Inl AssertFailed \<and> (\<exists>e\<in>set fs. freeFailure e)"
      using c(7) by auto
    have 4: "trace sa = trace st @ pre" using c(3) by simp
    from 1 c(2) 4 c(4,5) 2 3
    show "\<exists>pre fs post' module s0 s1.
              ?evs = pre @ (releaseValueTargets, (0, 0)) # fs @ post'
            \<and> stages debug drv module inp s0 = (Inr (), s1) \<and> trace s1 = trace st @ pre
            \<and> (\<forall>x\<in>set pre. \<not> stageFailure x \<and> \<not> isRelease x \<and> \<not> isFree x)
            \<and> (\<forall>x\<in>set fs. isFree x)
            \<and> (\<forall>x\<in>set post'. \<not> isRelease x \<and> \<not> isFree x \<and> \<not> isMalloc x \<and> \<not> stageFailure x)
            \<and> (r = Inr () \<or> (\<exists>e\<in>set post'. unloadFailure e)
                 \<or> debug \<and> r = Inl AssertFailed \<and> (\<exists>e\<in>set fs. freeFailure e))"
      by (intro exI [of _ pre] exI [of _ fs] exI [of _ "pb @ post"] exI [of _ module]
            exI [of _ s0] exI [of _ sa] conjI)
  qed
  have np: "filter isRelease post = []" using quiet by (simp add: filter_empty_conv)
  then have cnt: "length (filter isRelease ?evs) = length (filter isRelease evs)" by simp
  have fp: "freed post = []" using quiet by (intro freed_none) simp
  have ap: "allocated post = []" using quiet by (intro allocated_none) simp
  have D: "r = Inr () \<longrightarrow> length (filter isRelease ?evs) = 1 \<and> freed ?evs = allocated ?evs
           \<and> (\<forall>v\<in>set (getValues inp). m_target st' v = None)
           \<and> (\<forall>x\<in>set ?evs. \<not> stageFailure x)"
  proof
    assume ok: "r = Inr ()"
    then have "\<not> reportsFailure debug r" by (simp add: reportsFailure_def)
    with evs(3) have "\<forall>x\<in>set evs. \<not> stageFailure x" by blast
    with quiet have "\<forall>x\<in>set ?evs. \<not> stageFailure x" by auto
    moreover from ok D0 same have "freed ?evs = allocated ?evs" by (simp add: fp ap)
    moreover from ok D0 targets have "\<forall>v\<in>set (getValues inp). m_target st' v = None" by simp
    moreover from ok evs(5) cnt have "length (filter isRelease ?evs) = 1" by simp
    ultimately show "length (filter isRelease ?evs) = 1 \<and> freed ?evs = allocated ?evs
           \<and> (\<forall>v\<in>set (getValues inp). m_target st' v = None)
           \<and> (\<forall>x\<in>set ?evs. \<not> stageFailure x)" by blast
  qed
  have E: "length (filter isRelease ?evs) \<le> 1" using cnt evs(4) by simp
  have T: "trace st' = trace st @ ?evs" using evs(1) post(1) by simp
  show ?thesis
    by (rule exI [of _ ?evs]) (rule conjI [OF T conjI [OF A conjI [OF B conjI [OF C conjI [OF D E]]]]])
qed

text \<open>
  On \<open>inpTiny\<close>: with the device synchronization failing after the four allocations, a
  build without assertions returns, nothing but the destruction of the context follows
  the failed call and nothing is released or freed, and a build with assertions stops
  at the assertion; with every call succeeding the release runs once, frees the four
  allocations in order and leaves Value 3 without a target; with \<^verbatim>\<open>cuModuleUnload\<close>
  failing the release has run before \<open>execute\<close> returns \<^verbatim>\<open>SLANG_FAIL\<close>.
\<close>

theorem execute_failure_and_release_witness:
  "(\<exists>pre post.
      trace (snd (execute False rtTie drvFailSync inpTiny st0))
        = trace st0 @ pre @ (cudaDeviceSynchronize, (700, 0)) # post
    \<and> (cudaMalloc 16, (0, 5632)) \<in> set pre
    \<and> filter stageFailure pre = []
    \<and> filter isFree (pre @ post) = []
    \<and> filter isRelease (pre @ post) = []
    \<and> length post \<le> 1
    \<and> returned (fst (execute False rtTie drvFailSync inpTiny st0)))
   \<and> fst (execute True rtTie drvFailSync inpTiny st0) = Inl AssertFailed
   \<and> fst (execute False rtTie drvOk inpTiny st0) = Inr ()
   \<and> length (filter isRelease (trace (snd (execute False rtTie drvOk inpTiny st0)))) = 1
   \<and> freed (trace (snd (execute False rtTie drvOk inpTiny st0))) = [5632, 5888, 6144, 6400]
   \<and> m_target (snd (execute False rtTie drvOk inpTiny st0)) 3 = None
   \<and> (\<exists>pre fs post.
        trace (snd (execute False rtTie drvFailUnload inpTiny st0))
          = trace st0 @ pre @ (releaseValueTargets, (0, 0)) # fs @ post
      \<and> filter stageFailure pre = []
      \<and> filter isFree pre = []
      \<and> filter isFree post = []
      \<and> filter unloadFailure post \<noteq> []
      \<and> fst (execute False rtTie drvFailUnload inpTiny st0) = Inl SLANG_FAIL)"
proof -
  let ?e = "(cudaDeviceSynchronize, (700, 0)) :: event"
  let ?a = "(cudaMalloc 16, (0, 5632)) :: event"
  have d: "distinct (getValues inpTiny)" by (simp add: input_defs)
  have fresh: "\<forall>v\<in>set (getValues inpTiny). m_target st0 v = None" by (simp add: input_defs)
  have t0: "trace st0 = []" by (simp add: input_defs)
  note at = execute_failure_and_release [OF prod.collapse [symmetric] d fresh]
  have one: "\<exists>pre post.
      trace (snd (execute False rtTie drvFailSync inpTiny st0))
        = trace st0 @ pre @ ?e # post
    \<and> ?a \<in> set pre
    \<and> filter stageFailure pre = []
    \<and> filter isFree (pre @ post) = []
    \<and> filter isRelease (pre @ post) = []
    \<and> length post \<le> 1
    \<and> returned (fst (execute False rtTie drvFailSync inpTiny st0))"
  proof -
    let ?X = "execute False rtTie drvFailSync inpTiny st0"
    have mem: "?e \<in> set (trace (snd ?X))" "?a \<in> set (trace (snd ?X))"
      by (simp_all add: run_defs input_defs rtTie_selected)
    from at [of False rtTie drvFailSync] obtain evs where
      evs: "trace (snd ?X) = trace st0 @ evs"
      and stop: "\<forall>e\<in>set evs. stageFailure e \<longrightarrow>
          reportsFailure False (fst ?X) \<and> (\<not> False \<longrightarrow> returned (fst ?X))
        \<and> (False \<and> (\<exists>x\<in>set evs. isMalloc x) \<longrightarrow> fst ?X = Inl AssertFailed)
        \<and> (\<exists>pre post. evs = pre @ e # post \<and> (\<forall>x\<in>set pre. \<not> stageFailure x)
              \<and> length post \<le> 1 \<and> (\<forall>x\<in>set post. \<exists>ctx rep. x = (cuCtxDestroy ctx, rep)))
        \<and> (\<forall>x\<in>set evs. \<not> isRelease x \<and> \<not> isFree x)"
      by (elim exE conjE)
    from evs mem t0 have in_evs: "?e \<in> set evs" "?a \<in> set evs" by simp_all
    have "stageFailure ?e" by (simp add: isError_def)
    with stop in_evs(1) obtain pre post where
      split: "evs = pre @ ?e # post" and pre: "\<forall>x\<in>set pre. \<not> stageFailure x"
      and post: "length post \<le> 1" "\<forall>x\<in>set post. \<exists>ctx rep. x = (cuCtxDestroy ctx, rep)"
      and none: "\<forall>x\<in>set evs. \<not> isRelease x \<and> \<not> isFree x"
      and ret: "returned (fst ?X)"
      by blast
    from in_evs(2) split post(2) have "?a \<in> set pre" by auto
    moreover from pre have "filter stageFailure pre = []" by (simp add: filter_empty_conv)
    moreover from none split have "filter isFree (pre @ post) = []"
      "filter isRelease (pre @ post) = []"
      by (simp_all add: filter_empty_conv)
    moreover from evs split have "trace (snd ?X) = trace st0 @ pre @ ?e # post" by simp
    ultimately show ?thesis using post(1) ret
      by (intro exI [of _ pre] exI [of _ post] conjI)
  qed
  have two: "fst (execute True rtTie drvFailSync inpTiny st0) = Inl AssertFailed"
  proof -
    let ?X = "execute True rtTie drvFailSync inpTiny st0"
    have mem: "?e \<in> set (trace (snd ?X))" "?a \<in> set (trace (snd ?X))"
      by (simp_all add: run_defs input_defs rtTie_selected)
    from at [of True rtTie drvFailSync] obtain evs where
      evs: "trace (snd ?X) = trace st0 @ evs"
      and stop: "\<forall>e\<in>set evs. stageFailure e \<longrightarrow>
          reportsFailure True (fst ?X) \<and> (\<not> True \<longrightarrow> returned (fst ?X))
        \<and> (True \<and> (\<exists>x\<in>set evs. isMalloc x) \<longrightarrow> fst ?X = Inl AssertFailed)
        \<and> (\<exists>pre post. evs = pre @ e # post \<and> (\<forall>x\<in>set pre. \<not> stageFailure x)
              \<and> length post \<le> 1 \<and> (\<forall>x\<in>set post. \<exists>ctx rep. x = (cuCtxDestroy ctx, rep)))
        \<and> (\<forall>x\<in>set evs. \<not> isRelease x \<and> \<not> isFree x)"
      by (elim exE conjE)
    from evs mem t0 have in_evs: "?e \<in> set evs" "?a \<in> set evs" by simp_all
    have "stageFailure ?e" "isMalloc ?a" by (simp_all add: isError_def)
    with stop in_evs show ?thesis by blast
  qed
  have three: "fst (execute False rtTie drvOk inpTiny st0) = Inr ()
     \<and> length (filter isRelease (trace (snd (execute False rtTie drvOk inpTiny st0)))) = 1
     \<and> freed (trace (snd (execute False rtTie drvOk inpTiny st0))) = [5632, 5888, 6144, 6400]
     \<and> m_target (snd (execute False rtTie drvOk inpTiny st0)) 3 = None"
  proof -
    let ?X = "execute False rtTie drvOk inpTiny st0"
    have ok: "fst ?X = Inr ()" by (simp add: run_defs input_defs rtTie_selected)
    have al: "allocated (trace (snd ?X)) = [5632, 5888, 6144, 6400]"
      by (simp add: run_defs input_defs rtTie_selected allocated_def List.map_filter_def)
    have v: "3 \<in> set (getValues inpTiny)" by (simp add: input_defs)
    from at [of False rtTie drvOk] obtain evs where
      evs: "trace (snd ?X) = trace st0 @ evs"
      and fin: "fst ?X = Inr () \<longrightarrow> length (filter isRelease evs) = 1
           \<and> freed evs = allocated evs
           \<and> (\<forall>v\<in>set (getValues inpTiny). m_target (snd ?X) v = None)
           \<and> (\<forall>x\<in>set evs. \<not> stageFailure x)"
      by (elim exE conjE)
    from evs t0 have "evs = trace (snd ?X)" by simp
    with fin ok al v show ?thesis by simp
  qed
  have four: "\<exists>pre fs post.
        trace (snd (execute False rtTie drvFailUnload inpTiny st0))
          = trace st0 @ pre @ (releaseValueTargets, (0, 0)) # fs @ post
      \<and> filter stageFailure pre = []
      \<and> filter isFree pre = []
      \<and> filter isFree post = []
      \<and> filter unloadFailure post \<noteq> []
      \<and> fst (execute False rtTie drvFailUnload inpTiny st0) = Inl SLANG_FAIL"
  proof -
    let ?X = "execute False rtTie drvFailUnload inpTiny st0"
    let ?m = "(releaseValueTargets, (0, 0)) :: event"
    have res: "fst ?X = Inl SLANG_FAIL" by (simp add: run_defs input_defs rtTie_selected)
    have mem: "?m \<in> set (trace (snd ?X))"
      by (simp add: run_defs input_defs rtTie_selected)
    from at [of False rtTie drvFailUnload] obtain evs where
      evs: "trace (snd ?X) = trace st0 @ evs"
      and rel: "(\<exists>x\<in>set evs. isRelease x \<or> isFree x) \<longrightarrow>
          (\<exists>pre fs post module s0 s1.
              evs = pre @ (releaseValueTargets, (0, 0)) # fs @ post
            \<and> stages False drvFailUnload module inpTiny s0 = (Inr (), s1)
            \<and> trace s1 = trace st0 @ pre
            \<and> (\<forall>x\<in>set pre. \<not> stageFailure x \<and> \<not> isRelease x \<and> \<not> isFree x)
            \<and> (\<forall>x\<in>set fs. isFree x)
            \<and> (\<forall>x\<in>set post. \<not> isRelease x \<and> \<not> isFree x \<and> \<not> isMalloc x \<and> \<not> stageFailure x)
            \<and> (fst ?X = Inr () \<or> (\<exists>e\<in>set post. unloadFailure e)
                 \<or> False \<and> fst ?X = Inl AssertFailed \<and> (\<exists>e\<in>set fs. freeFailure e)))"
      by (elim exE conjE)
    from evs mem t0 have "?m \<in> set evs" by simp
    moreover have "isRelease ?m" by simp
    ultimately have "\<exists>x\<in>set evs. isRelease x \<or> isFree x" by blast
    with rel res obtain pre fs post where
      split: "evs = pre @ ?m # fs @ post"
      and pre: "\<forall>x\<in>set pre. \<not> stageFailure x \<and> \<not> isRelease x \<and> \<not> isFree x"
      and post: "\<forall>x\<in>set post. \<not> isRelease x \<and> \<not> isFree x \<and> \<not> isMalloc x \<and> \<not> stageFailure x"
      and un: "\<exists>e\<in>set post. unloadFailure e"
      by auto
    from pre have "filter stageFailure pre = []" "filter isFree pre = []"
      by (simp_all add: filter_empty_conv)
    moreover from post have "filter isFree post = []" by (simp add: filter_empty_conv)
    moreover from un have "filter unloadFailure post \<noteq> []" by (simp add: filter_empty_conv)
    moreover from evs split have "trace (snd ?X) = trace st0 @ pre @ ?m # fs @ post" by simp
    ultimately show ?thesis using res
      by (intro exI [of _ pre] exI [of _ fs] exI [of _ post] conjI)
  qed
  from one two three four show ?thesis by (intro conjI) simp_all
qed

end
